theory Spec2Isabelle
  imports Main
begin

section \<open>Values, rows, exceptions\<close>

text \<open>
  The values that travel through the settings cache: what a TOML file and a database
  column can hold. Nested containers are plain data: \<open>copy.deepcopy\<close> of such a value is
  an equal value that shares nothing with the original.
\<close>

datatype val =
    VNone
  | VBool bool
  | VInt int
  | VStr string
  | VList "val list"
  | VDict "(string \<times> val) list"

text \<open>A Python dict with string keys; a database record: its columns in order.\<close>

type_synonym pydict = "string \<rightharpoonup> val"
type_synonym row = "(string \<times> val) list"

text \<open>
  The keys of the two \<open>defaultdict\<close>s. Python hashes \<open>True\<close> and \<open>1\<close> to the same key;
  lists and dicts are unhashable.
\<close>

datatype key = KNone | KInt int | KStr string

datatype exn =
    OSError string
  | TomlDecodeError string
  | PostgresError string
  | KeyError string
  | IndexError string
  | TypeError string
  | CogError string

text \<open>\<open>str(e)\<close>: the message; for a \<open>KeyError\<close>, the key in quotes.\<close>

fun str_exn :: "exn \<Rightarrow> string" where
  "str_exn (OSError m) = m"
| "str_exn (TomlDecodeError m) = m"
| "str_exn (PostgresError m) = m"
| "str_exn (KeyError m) = [CHR 0x27] @ m @ [CHR 0x27]"
| "str_exn (IndexError m) = m"
| "str_exn (TypeError m) = m"
| "str_exn (CogError m) = m"

fun key_of :: "val \<Rightarrow> exn + key" where
  "key_of VNone = Inr KNone"
| "key_of (VBool b) = Inr (KInt (if b then 1 else 0))"
| "key_of (VInt n) = Inr (KInt n)"
| "key_of (VStr x) = Inr (KStr x)"
| "key_of (VList xs) = Inl (TypeError ''unhashable type: list'')"
| "key_of (VDict kvs) = Inl (TypeError ''unhashable type: dict'')"

text \<open>
  How a call ends: it returns, it raises an \<open>Exception\<close>, the process exits
  (\<open>exit(n)\<close> raises \<open>SystemExit\<close>, which \<open>except Exception\<close> does not catch), or it
  waits for ever (\<open>wait_until_ready\<close> has no timeout).
\<close>

datatype 'a outcome = Return 'a | Raise exn | Exit int | Blocked

section \<open>The database and the observable trace\<close>

datatype table = Guild | User

fun table_name :: "table \<Rightarrow> string" where
  "table_name Guild = ''guild_settings''"
| "table_name User = ''user_settings''"

fun id_column :: "table \<Rightarrow> string" where
  "id_column Guild = ''guild_id''"
| "id_column User = ''user_id''"

text \<open>The three SQL statements \<open>_startup\<close> sends, per table.\<close>

datatype query = SelectSentinel table | InsertSentinel table | SelectAll table

fun sql_text :: "query \<Rightarrow> string" where
  "sql_text (SelectSentinel t) =
     ''SELECT * FROM '' @ table_name t @ '' WHERE '' @ id_column t @ ''=0''"
| "sql_text (InsertSentinel t) =
     ''INSERT INTO '' @ table_name t @ '' ('' @ id_column t @ '') VALUES (0) RETURNING *''"
| "sql_text (SelectAll t) = ''SELECT * FROM '' @ table_name t"

text \<open>
  Modelled from the spec: the Persistent Store Accessor (\<open>DatabaseConnection\<close>, imported
  from \<open>.database\<close>, is not among the sources). A database holds the rows of the two
  settings tables, the column defaults an \<open>INSERT\<close> of the key alone fills in (the
  non-key columns), and a script of faults: each operation on the connection consumes
  one entry and raises when the entry holds an exception.
\<close>

record database =
  tables :: "table \<Rightarrow> row list"
  column_defaults :: "table \<Rightarrow> row"
  faults :: "exn option list"
  open_connections :: nat

definition take_fault :: "database \<Rightarrow> exn option \<times> database" where
  "take_fault d = (case faults d of [] \<Rightarrow> (None, d) | f # fs \<Rightarrow> (f, d\<lparr>faults := fs\<rparr>))"

definition sentinel_rows :: "table \<Rightarrow> database \<Rightarrow> row list" where
  "sentinel_rows t d = filter (\<lambda>r. map_of r (id_column t) = Some (VInt 0)) (tables d t)"

definition db_exec :: "query \<Rightarrow> database \<Rightarrow> (exn + row list) \<times> database" where
  "db_exec q d =
     (case q of
        SelectSentinel t \<Rightarrow> (Inr (sentinel_rows t d), d)
      | InsertSentinel t \<Rightarrow>
          (if sentinel_rows t d \<noteq> []
           then (Inl (PostgresError ''duplicate key value violates unique constraint''), d)
           else (let r = (id_column t, VInt 0) # column_defaults d t
                 in (Inr [r], d\<lparr>tables := (tables d)(t := tables d t @ [r])\<rparr>)))
      | SelectAll t \<Rightarrow> (Inr (tables d t), d))"

datatype level = DEBUG | INFO | ERROR | CRITICAL

text \<open>
  The trace: every call that leaves the bot (log lines, the file read, the calls on the
  database connection with the exception they raised if any, the extension callbacks,
  the wait for readiness) and every mutation of the settings cache, in program order.
\<close>

datatype event =
    Log level string
  | LoadToml string "exn option"
  | GetConnection "exn option"
  | Sql query "exn option"
  | Disconnect "exn option"
  | CacheSetup string
  | WaitUntilReady
  | ClearCache table
  | SetDefault table string val
  | SetItem table key string val

section \<open>The bot\<close>

type_synonym ref = nat

text \<open>An extension: its name and its \<open>cache_setup(db)\<close> coroutine, if it defines one.\<close>

type_synonym cog = "string \<times> (database \<Rightarrow> unit outcome \<times> database) option"

text \<open>
  The attributes of \<open>CustomBot\<close> the settings subsystem uses, the object store and the
  environment. \<open>DEFAULT_SETTINGS s Guild\<close> is \<open>self.DEFAULT_GUILD_SETTINGS\<close> and
  \<open>settings_cache s Guild\<close> is \<open>self.guild_settings\<close> (likewise for \<open>User\<close>); both hold
  references to dict objects in \<open>heap\<close>, so that "the same object" and "a copy" differ.
\<close>

record state =
  config :: "pydict option"
  config_file :: string
  DEFAULT_SETTINGS :: "table \<Rightarrow> ref"
  settings_cache :: "table \<Rightarrow> key \<rightharpoonup> ref"
  cogs :: "cog list"
  heap :: "ref \<Rightarrow> pydict"
  next_ref :: ref
  files :: "string \<Rightarrow> exn + pydict"
  db :: database
  ready :: bool
  trace :: "event list"

abbreviation DEFAULT_GUILD_SETTINGS :: "state \<Rightarrow> ref" where
  "DEFAULT_GUILD_SETTINGS s \<equiv> DEFAULT_SETTINGS s Guild"

abbreviation DEFAULT_USER_SETTINGS :: "state \<Rightarrow> ref" where
  "DEFAULT_USER_SETTINGS s \<equiv> DEFAULT_SETTINGS s User"

abbreviation guild_settings :: "state \<Rightarrow> key \<rightharpoonup> ref" where
  "guild_settings s \<equiv> settings_cache s Guild"

abbreviation user_settings :: "state \<Rightarrow> key \<rightharpoonup> ref" where
  "user_settings s \<equiv> settings_cache s User"

type_synonym 'a prog = "state \<Rightarrow> 'a outcome \<times> state"

definition ret :: "'a \<Rightarrow> 'a prog" where
  "ret x s = (Return x, s)"

definition raise :: "exn \<Rightarrow> 'a prog" where
  "raise e s = (Raise e, s)"

definition exit :: "int \<Rightarrow> 'a prog" where
  "exit c s = (Exit c, s)"

definition pbind :: "'a prog \<Rightarrow> ('a \<Rightarrow> 'b prog) \<Rightarrow> 'b prog" where
  "pbind m f s =
     (case m s of
        (Return x, s') \<Rightarrow> f x s'
      | (Raise e, s') \<Rightarrow> (Raise e, s')
      | (Exit c, s') \<Rightarrow> (Exit c, s')
      | (Blocked, s') \<Rightarrow> (Blocked, s'))"

text \<open>\<open>try: m except Exception as e: h e\<close>\<close>

definition try_except :: "'a prog \<Rightarrow> (exn \<Rightarrow> 'a prog) \<Rightarrow> 'a prog" where
  "try_except m h s = (case m s of (Raise e, s') \<Rightarrow> h e s' | other \<Rightarrow> other)"

definition emit :: "event \<Rightarrow> unit prog" where
  "emit ev s = (Return (), s\<lparr>trace := trace s @ [ev]\<rparr>)"

definition log :: "level \<Rightarrow> string \<Rightarrow> unit prog" where
  "log lv msg = emit (Log lv msg)"

subsection \<open>Calls on the database connection\<close>

definition get_connection :: "unit prog" where
  "get_connection s =
     (case take_fault (db s) of
        (Some e, d) \<Rightarrow> (Raise e, s\<lparr>db := d, trace := trace s @ [GetConnection (Some e)]\<rparr>)
      | (None, d) \<Rightarrow>
          (Return (), s\<lparr>db := d\<lparr>open_connections := Suc (open_connections d)\<rparr>,
                        trace := trace s @ [GetConnection None]\<rparr>))"

definition db_call :: "query \<Rightarrow> row list prog" where
  "db_call q s =
     (case take_fault (db s) of
        (Some e, d) \<Rightarrow> (Raise e, s\<lparr>db := d, trace := trace s @ [Sql q (Some e)]\<rparr>)
      | (None, d) \<Rightarrow>
          (case db_exec q d of
             (Inl e, d') \<Rightarrow> (Raise e, s\<lparr>db := d', trace := trace s @ [Sql q (Some e)]\<rparr>)
           | (Inr rows, d') \<Rightarrow> (Return rows, s\<lparr>db := d', trace := trace s @ [Sql q None]\<rparr>)))"

definition disconnect :: "unit prog" where
  "disconnect s =
     (case take_fault (db s) of
        (Some e, d) \<Rightarrow> (Raise e, s\<lparr>db := d, trace := trace s @ [Disconnect (Some e)]\<rparr>)
      | (None, d) \<Rightarrow>
          (Return (), s\<lparr>db := d\<lparr>open_connections := open_connections d - 1\<rparr>,
                        trace := trace s @ [Disconnect None]\<rparr>))"

subsection \<open>\<open>reload_config\<close>, \<open>__init__\<close>, \<open>owner_ids\<close>\<close>

text \<open>\<open>with open(self.config_file) as a: toml.load(a)\<close>\<close>

definition load_toml :: "pydict prog" where
  "load_toml s =
     (case files s (config_file s) of
        Inl e \<Rightarrow> (Raise e, s\<lparr>trace := trace s @ [LoadToml (config_file s) (Some e)]\<rparr>)
      | Inr c \<Rightarrow> (Return c, s\<lparr>trace := trace s @ [LoadToml (config_file s) None]\<rparr>))"

definition set_config :: "pydict \<Rightarrow> unit prog" where
  "set_config c s = (Return (), s\<lparr>config := Some c\<rparr>)"

definition reload_config :: "unit prog" where
  "reload_config =
     pbind (log INFO ''Reloading config'') (\<lambda>_.
       try_except (pbind load_toml set_config)
         (\<lambda>e. pbind (log CRITICAL (''Couldn't read config file - '' @ str_exn e)) (\<lambda>_. exit 1)))"

text \<open>\<open>self.config[name]\<close>\<close>

definition config_getitem :: "string \<Rightarrow> val prog" where
  "config_getitem name s =
     (case config s of
        None \<Rightarrow> (Raise (TypeError ''NoneType object is not subscriptable''), s)
      | Some c \<Rightarrow> (case c name of None \<Rightarrow> (Raise (KeyError name), s) | Some v \<Rightarrow> (Return v, s)))"

text \<open>A dict display \<open>{...}\<close>: a new object.\<close>

definition new_dict :: "pydict \<Rightarrow> ref prog" where
  "new_dict d s =
     (Return (next_ref s), s\<lparr>heap := (heap s)(next_ref s := d), next_ref := Suc (next_ref s)\<rparr>)"

definition set_DEFAULT_SETTINGS :: "table \<Rightarrow> ref \<Rightarrow> unit prog" where
  "set_DEFAULT_SETTINGS t r s = (Return (), s\<lparr>DEFAULT_SETTINGS := (DEFAULT_SETTINGS s)(t := r)\<rparr>)"

definition blank :: "string \<Rightarrow> (string \<Rightarrow> exn + pydict) \<Rightarrow> database \<Rightarrow> bool \<Rightarrow> state" where
  "blank cf fs d rd =
     \<lparr>config = None, config_file = cf, DEFAULT_SETTINGS = (\<lambda>_. 0),
      settings_cache = (\<lambda>_. Map.empty), cogs = [], heap = (\<lambda>_. Map.empty), next_ref = 0,
      files = fs, db = d, ready = rd, trace = []\<rparr>"

text \<open>
  \<open>CustomBot.__init__\<close>, as far as the settings subsystem goes: the configuration is
  loaded, the guild defaults are seeded with the configured prefix, the user defaults are
  empty, and both caches start empty. The arguments are the path of the configuration
  file and the environment (file contents, database, whether the platform session ever
  becomes ready).
\<close>

definition init :: "string \<Rightarrow> (string \<Rightarrow> exn + pydict) \<Rightarrow> database \<Rightarrow> bool \<Rightarrow> unit outcome \<times> state" where
  "init cf fs d rd =
     pbind reload_config (\<lambda>_.
     pbind (config_getitem ''default_prefix'') (\<lambda>p.
     pbind (new_dict [''prefix'' \<mapsto> p]) (\<lambda>g.
     pbind (set_DEFAULT_SETTINGS Guild g) (\<lambda>_.
     pbind (new_dict Map.empty) (\<lambda>u.
     set_DEFAULT_SETTINGS User u)))))
     (blank cf fs d rd)"

text \<open>The property \<open>owner_ids\<close> and its setter, whose body is \<open>pass\<close>.\<close>

definition owner_ids :: "val prog" where
  "owner_ids = config_getitem ''owners''"

definition owner_ids_setter :: "val \<Rightarrow> unit prog" where
  "owner_ids_setter v s = (Return (), s)"

subsection \<open>The settings cache\<close>

text \<open>\<open>copy.deepcopy\<close> of a settings dict: a new object with equal contents.\<close>

definition deepcopy :: "ref \<Rightarrow> state \<Rightarrow> ref \<times> state" where
  "deepcopy r s =
     (next_ref s, s\<lparr>heap := (heap s)(next_ref s := heap s r), next_ref := Suc (next_ref s)\<rparr>)"

text \<open>
  \<open>defaultdict.__getitem__\<close> with the factory
  \<open>lambda: copy.deepcopy(self.DEFAULT_GUILD_SETTINGS)\<close>: a missing key is given the
  factory's result, which is stored and returned.
\<close>

definition getitem :: "table \<Rightarrow> key \<Rightarrow> ref prog" where
  "getitem t k s =
     (case settings_cache s t k of
        Some r \<Rightarrow> (Return r, s)
      | None \<Rightarrow>
          (case deepcopy (DEFAULT_SETTINGS s t) s of
             (r, s') \<Rightarrow>
               (Return r,
                s'\<lparr>settings_cache := (settings_cache s')(t := (settings_cache s' t)(k \<mapsto> r))\<rparr>)))"

text \<open>Hashing the subscript: \<open>TypeError\<close> for a list or a dict.\<close>

definition hash_key :: "val \<Rightarrow> key prog" where
  "hash_key v s = (case key_of v of Inl e \<Rightarrow> (Raise e, s) | Inr k \<Rightarrow> (Return k, s))"

text \<open>\<open>self.guild_settings[v]\<close> for a Python value \<open>v\<close>.\<close>

definition getitem_val :: "table \<Rightarrow> val \<Rightarrow> ref prog" where
  "getitem_val t v = pbind (hash_key v) (getitem t)"

definition clear :: "table \<Rightarrow> unit prog" where
  "clear t s =
     (Return (), s\<lparr>settings_cache := (settings_cache s)(t := Map.empty),
                   trace := trace s @ [ClearCache t]\<rparr>)"

text \<open>\<open>self.DEFAULT_GUILD_SETTINGS.setdefault(i, o)\<close>\<close>

definition setdefault :: "table \<Rightarrow> string \<Rightarrow> val \<Rightarrow> state \<Rightarrow> state" where
  "setdefault t i ov s =
     (let d = DEFAULT_SETTINGS s t
      in s\<lparr>heap := (heap s)(d := (case heap s d i of
                                     None \<Rightarrow> (heap s d)(i \<mapsto> ov)
                                   | Some old \<Rightarrow> heap s d)),
           trace := trace s @ [SetDefault t i ov]\<rparr>)"

text \<open>\<open>for i, o in default_guild_settings[0].items(): ...setdefault(i, o)\<close>\<close>

fun setdefault_items :: "table \<Rightarrow> row \<Rightarrow> state \<Rightarrow> state" where
  "setdefault_items t [] s = s"
| "setdefault_items t ((i, ov) # rest) s = setdefault_items t rest (setdefault t i ov s)"

text \<open>\<open>row[name]\<close> on a record whose column names are distinct.\<close>

definition row_getitem :: "row \<Rightarrow> string \<Rightarrow> val prog" where
  "row_getitem r name s =
     (case map_of r name of None \<Rightarrow> (Raise (KeyError name), s) | Some v \<Rightarrow> (Return v, s))"

definition store_item :: "table \<Rightarrow> key \<Rightarrow> ref \<Rightarrow> string \<Rightarrow> val \<Rightarrow> unit prog" where
  "store_item t i obj k v s =
     (Return (), s\<lparr>heap := (heap s)(obj := (heap s obj)(k \<mapsto> v)),
                   trace := trace s @ [SetItem t i k v]\<rparr>)"

text \<open>\<open>self.guild_settings[row['guild_id']][key] = value\<close>\<close>

definition assign_setting :: "table \<Rightarrow> row \<Rightarrow> string \<Rightarrow> val \<Rightarrow> unit prog" where
  "assign_setting t r k v =
     pbind (row_getitem r (id_column t)) (\<lambda>idv.
     pbind (hash_key idv) (\<lambda>i.
     pbind (getitem t i) (\<lambda>obj.
     store_item t i obj k v)))"

text \<open>\<open>for key, value in row.items(): ...\<close>\<close>

fun assign_items :: "table \<Rightarrow> row \<Rightarrow> (string \<times> val) list \<Rightarrow> unit prog" where
  "assign_items t r [] s = (Return (), s)"
| "assign_items t r ((k, v) # rest) s =
     (case assign_setting t r k v s of
        (Return u, s') \<Rightarrow> assign_items t r rest s'
      | other \<Rightarrow> other)"

text \<open>\<open>for row in data: ...\<close>\<close>

fun hydrate_rows :: "table \<Rightarrow> row list \<Rightarrow> unit prog" where
  "hydrate_rows t [] s = (Return (), s)"
| "hydrate_rows t (r # rows) s =
     (case assign_items t r r s of
        (Return u, s') \<Rightarrow> hydrate_rows t rows s'
      | other \<Rightarrow> other)"

subsection \<open>Startup\<close>

definition run_sql_exit_on_error :: "query \<Rightarrow> row list prog" where
  "run_sql_exit_on_error q =
     try_except (db_call q)
       (\<lambda>e. pbind (log CRITICAL (''Error selecting from table - '' @ str_exn e)) (\<lambda>_. exit 1))"

definition get_all_table_data :: "table \<Rightarrow> row list prog" where
  "get_all_table_data t = run_sql_exit_on_error (SelectAll t)"

text \<open>\<open>default_guild_settings[0]\<close>\<close>

definition first_row :: "row list \<Rightarrow> row prog" where
  "first_row rows s =
     (case rows of [] \<Rightarrow> (Raise (IndexError ''list index out of range''), s) | r # _ \<Rightarrow> (Return r, s))"

text \<open>
  The block "Get default guild settings" of \<open>_startup\<close> (and its twin for users): select
  the sentinel row, insert it when the select is empty, merge its items into the
  defaults.
\<close>

definition get_default_settings :: "table \<Rightarrow> unit prog" where
  "get_default_settings t =
     pbind (db_call (SelectSentinel t)) (\<lambda>found.
     pbind (if found = [] then db_call (InsertSentinel t) else ret found) (\<lambda>default_settings.
     pbind (first_row default_settings) (\<lambda>r s.
     (Return (), setdefault_items t r s))))"

text \<open>The block "Get guild settings" of \<open>_startup\<close> (and its twin for users).\<close>

definition get_settings :: "table \<Rightarrow> unit prog" where
  "get_settings t = pbind (get_all_table_data t) (hydrate_rows t)"

text \<open>
  \<open>await getattr(cog, "cache_setup", fake_cache_setup_method)(db)\<close>. The callback is code
  of the extension: it works on the connection it is handed, may change the database and
  may end in any outcome; the caches it fills are its own, not the two settings caches.
\<close>

definition call_cache_setup :: "cog \<Rightarrow> unit prog" where
  "call_cache_setup c s =
     (case snd c of
        None \<Rightarrow> (Return (), s)
      | Some f \<Rightarrow>
          (case f (db s) of
             (r, d') \<Rightarrow> (r, s\<lparr>db := d', trace := trace s @ [CacheSetup (fst c)]\<rparr>)))"

fun run_cache_setup :: "cog list \<Rightarrow> unit prog" where
  "run_cache_setup [] s = (Return (), s)"
| "run_cache_setup (c # cs) s =
     (case call_cache_setup c s of
        (Return u, s') \<Rightarrow> run_cache_setup cs s'
      | other \<Rightarrow> other)"

definition wait_until_ready :: "unit prog" where
  "wait_until_ready s =
     (if ready s then (Return (), s\<lparr>trace := trace s @ [WaitUntilReady]\<rparr>)
      else (Blocked, s\<lparr>trace := trace s @ [WaitUntilReady]\<rparr>))"

text \<open>\<open>CustomBot._startup\<close>\<close>

definition startup_impl :: "unit prog" where
  "startup_impl =
     pbind (log DEBUG ''Clearing caches'') (\<lambda>_.
     pbind (clear Guild) (\<lambda>_.
     pbind (clear User) (\<lambda>_.
     pbind get_connection (\<lambda>_.
     pbind (get_default_settings Guild) (\<lambda>_.
     pbind (get_settings Guild) (\<lambda>_.
     pbind (get_default_settings User) (\<lambda>_.
     pbind (get_settings User) (\<lambda>_.
     pbind (\<lambda>s. run_cache_setup (cogs s) s) (\<lambda>_.
     pbind (log DEBUG ''Waiting until ready before completing startup method.'') (\<lambda>_.
     pbind wait_until_ready (\<lambda>_.
     disconnect)))))))))))"

text \<open>\<open>CustomBot.startup\<close>\<close>

definition startup :: "unit prog" where
  "startup =
     try_except startup_impl (\<lambda>e. pbind (log ERROR (str_exn e)) (\<lambda>_. exit 1))"

section \<open>Notions used in the statements\<close>

text \<open>
  The contents of the cache, read through the references: the defaults of a table and
  the settings of an entity, if it has an entry.
\<close>

definition default_of :: "state \<Rightarrow> table \<Rightarrow> pydict" where
  "default_of s t = heap s (DEFAULT_SETTINGS s t)"

definition entry :: "state \<Rightarrow> table \<Rightarrow> key \<Rightarrow> pydict option" where
  "entry s t i = map_option (heap s) (settings_cache s t i)"

text \<open>
  The shape of the object store that \<open>__init__\<close> sets up and every operation keeps: all
  references in use are allocated, the two default dicts are two objects, no cache entry
  is one of them, and no two cache entries are the same object.
\<close>

definition separate :: "state \<Rightarrow> bool" where
  "separate s \<longleftrightarrow>
     (\<forall>t. DEFAULT_SETTINGS s t < next_ref s)
   \<and> DEFAULT_SETTINGS s Guild \<noteq> DEFAULT_SETTINGS s User
   \<and> (\<forall>t i obj. settings_cache s t i = Some obj \<longrightarrow>
          obj < next_ref s \<and> (\<forall>t'. obj \<noteq> DEFAULT_SETTINGS s t'))
   \<and> (\<forall>t i t' i' obj. settings_cache s t i = Some obj \<longrightarrow> settings_cache s t' i' = Some obj \<longrightarrow>
          t = t' \<and> i = i')"

text \<open>The cache key a row is filed under, when its key column holds a hashable value.\<close>

definition row_key :: "table \<Rightarrow> row \<Rightarrow> key option" where
  "row_key t r =
     (case map_of r (id_column t) of
        None \<Rightarrow> None
      | Some v \<Rightarrow> (case key_of v of Inl e \<Rightarrow> None | Inr k \<Rightarrow> Some k))"

text \<open>\<open>d[k] = v\<close> for each item, in order.\<close>

definition update_items :: "(string \<times> val) list \<Rightarrow> pydict \<Rightarrow> pydict" where
  "update_items kvs d = fold (\<lambda>(k, v) m. m(k \<mapsto> v)) kvs d"

text \<open>What a program adds to the trace, with the outcome it ends in.\<close>

definition emits :: "'a prog \<Rightarrow> ('a outcome \<Rightarrow> event list \<Rightarrow> bool) \<Rightarrow> bool" where
  "emits m Q \<longleftrightarrow> (\<forall>s. \<exists>es. trace (snd (m s)) = trace s @ es \<and> Q (fst (m s)) es)"

fun db_error :: "event \<Rightarrow> bool" where
  "db_error (GetConnection (Some e)) = True"
| "db_error (Sql q (Some e)) = True"
| "db_error (Disconnect (Some e)) = True"
| "db_error ev = False"

fun severe :: "event \<Rightarrow> bool" where
  "severe (Log ERROR msg) = True"
| "severe (Log CRITICAL msg) = True"
| "severe ev = False"

definition quiet :: "event \<Rightarrow> bool" where
  "quiet ev \<longleftrightarrow> \<not> db_error ev \<and> \<not> severe ev"

text \<open>The bulk query of a table, which goes through \<open>_run_sql_exit_on_error\<close>.\<close>

fun bulk_query :: "event \<Rightarrow> bool" where
  "bulk_query (Sql (SelectAll t) x) = True"
| "bulk_query ev = False"

text \<open>
  The step of \<open>_startup\<close> an event belongs to: 1 clearing the caches, 2 acquiring the
  connection, 3 the guild defaults, 4 the guild rows, 5 the user defaults, 6 the user
  rows, 7 the extension callbacks, 8 waiting for readiness, 9 releasing the connection,
  10 the report of a failure.
\<close>

fun phase :: "event \<Rightarrow> nat" where
  "phase (Log DEBUG msg) = (if msg = ''Clearing caches'' then 1 else 8)"
| "phase (Log INFO msg) = 0"
| "phase (Log ERROR msg) = 10"
| "phase (Log CRITICAL msg) = 10"
| "phase (LoadToml f x) = 0"
| "phase (ClearCache t) = 1"
| "phase (GetConnection x) = 2"
| "phase (Sql (SelectSentinel Guild) x) = 3"
| "phase (Sql (InsertSentinel Guild) x) = 3"
| "phase (SetDefault Guild k v) = 3"
| "phase (Sql (SelectAll Guild) x) = 4"
| "phase (SetItem Guild i k v) = 4"
| "phase (Sql (SelectSentinel User) x) = 5"
| "phase (Sql (InsertSentinel User) x) = 5"
| "phase (SetDefault User k v) = 5"
| "phase (Sql (SelectAll User) x) = 6"
| "phase (SetItem User i k v) = 6"
| "phase (CacheSetup name) = 7"
| "phase WaitUntilReady = 8"
| "phase (Disconnect x) = 9"

section \<open>An example environment\<close>

text \<open>
  A configuration file with prefix \<open>$\<close>, and a database whose \<open>guild_settings\<close> table
  holds the sentinel row with prefix \<open>!\<close> and one guild row with prefix \<open>?\<close>.
\<close>

definition example_config :: pydict where
  "example_config = [''default_prefix'' \<mapsto> VStr ''$'', ''owners'' \<mapsto> VList [VInt 7, VInt 8]]"

definition example_files :: "string \<Rightarrow> exn + pydict" where
  "example_files p =
     (if p = ''config/config.toml'' then Inr example_config
      else Inl (OSError ''No such file or directory''))"

definition example_db :: database where
  "example_db =
     \<lparr>tables = (\<lambda>t. case t of
          Guild \<Rightarrow> [[(''guild_id'', VInt 0), (''prefix'', VStr ''!'')],
                    [(''guild_id'', VInt 42), (''prefix'', VStr ''?'')]]
        | User \<Rightarrow> []),
      column_defaults = (\<lambda>t. []), faults = [], open_connections = 0\<rparr>"

section \<open>Notions used in the proofs\<close>

text \<open>What a read of entity \<open>i\<close> gives: its entry, or the defaults when it has none.\<close>

definition settings_of :: "state \<Rightarrow> table \<Rightarrow> key \<Rightarrow> pydict" where
  "settings_of s t i = (case entry s t i of None \<Rightarrow> default_of s t | Some d \<Rightarrow> d)"

text \<open>A step that keeps the shape of the store, the defaults, the database and the extensions.\<close>

definition kept :: "state \<Rightarrow> state \<Rightarrow> bool" where
  "kept s s' \<longleftrightarrow>
     separate s' \<and> DEFAULT_SETTINGS s' = DEFAULT_SETTINGS s \<and> db s' = db s \<and> cogs s' = cogs s
   \<and> default_of s' = default_of s"

text \<open>What one assignment does to the contents of the cache.\<close>

definition assigned :: "table \<Rightarrow> key \<Rightarrow> string \<Rightarrow> val \<Rightarrow> state \<Rightarrow> state \<Rightarrow> bool" where
  "assigned t i k v s s' \<longleftrightarrow>
     kept s s' \<and> entry s' = (entry s)(t := (entry s t)(i \<mapsto> (settings_of s t i)(k \<mapsto> v)))"

text \<open>Steps that touch neither the store nor the tables.\<close>

definition same_store :: "state \<Rightarrow> state \<Rightarrow> bool" where
  "same_store s s' \<longleftrightarrow>
     settings_cache s' = settings_cache s \<and> heap s' = heap s
   \<and> DEFAULT_SETTINGS s' = DEFAULT_SETTINGS s \<and> next_ref s' = next_ref s \<and> cogs s' = cogs s"

definition same_tables :: "state \<Rightarrow> state \<Rightarrow> bool" where
  "same_tables s s' \<longleftrightarrow>
     tables (db s') = tables (db s) \<and> column_defaults (db s') = column_defaults (db s)"

text \<open>The rows of a table once its sentinel row is ensured.\<close>

definition rows_with_sentinel :: "table \<Rightarrow> database \<Rightarrow> row list" where
  "rows_with_sentinel t d =
     (if sentinel_rows t d = [] then tables d t @ [(id_column t, VInt 0) # column_defaults d t]
      else tables d t)"

text \<open>The row the defaults are merged from: the first sentinel row, or the one inserted.\<close>

definition sentinel_row :: "table \<Rightarrow> database \<Rightarrow> row" where
  "sentinel_row t d =
     (case sentinel_rows t d of [] \<Rightarrow> (id_column t, VInt 0) # column_defaults d t | r # rs \<Rightarrow> r)"

text \<open>\<open>setdefault\<close> of every item of a row, on a dict.\<close>

definition merged :: "pydict \<Rightarrow> row \<Rightarrow> pydict" where
  "merged d r = (\<lambda>k. case d k of None \<Rightarrow> map_of r k | Some old \<Rightarrow> Some old)"

text \<open>A step on table \<open>t\<close> that changes no entry but those of the keys \<open>ks\<close>.\<close>

definition left_alone :: "table \<Rightarrow> key option set \<Rightarrow> state \<Rightarrow> state \<Rightarrow> bool" where
  "left_alone t ks s s' \<longleftrightarrow>
     kept s s' \<and> (\<forall>t' i. (t' \<noteq> t \<or> Some i \<notin> ks) \<longrightarrow> entry s' t' i = entry s t' i)"

text \<open>
  Two extensions, one with a \<open>cache_setup\<close> that does nothing; the bot constructed in the
  example environment with them loaded; the same bot when the connection is lost at the
  first query.
\<close>

definition example_cogs :: "cog list" where
  "example_cogs = [(''Stats'', Some (\<lambda>d. (Return (), d))), (''Misc'', None)]"

definition example_state :: state where
  "example_state = (snd (init ''config/config.toml'' example_files example_db True))\<lparr>cogs := example_cogs\<rparr>"

definition failing_state :: state where
  "failing_state =
     example_state\<lparr>db := example_db\<lparr>faults := [None, Some (PostgresError ''connection lost'')]\<rparr>\<rparr>"

text \<open>Events of the kinds the statements single out.\<close>

definition is_SetItem :: "table \<Rightarrow> event \<Rightarrow> bool" where
  "is_SetItem t ev \<longleftrightarrow> (\<exists>i k v. ev = SetItem t i k v)"

text \<open>
  The trace of a part of \<open>_startup\<close>: no database error and no failure report; or one
  database error, raised, as the last event; or a failed bulk query, reported at critical
  severity, and exit 1.
\<close>

definition failure_shape :: "'a outcome \<Rightarrow> event list \<Rightarrow> bool" where
  "failure_shape r es \<longleftrightarrow>
     (\<forall>x\<in>set es. quiet x)
   \<or> (\<exists>pre e ex. es = pre @ [e] \<and> (\<forall>x\<in>set pre. quiet x) \<and> db_error e \<and> \<not> bulk_query e \<and> r = Raise ex)
   \<or> (\<exists>pre e msg. es = pre @ [e, Log CRITICAL msg] \<and> (\<forall>x\<in>set pre. quiet x) \<and> db_error e
         \<and> bulk_query e \<and> r = Exit 1)"

text \<open>The run of \<open>startup\<close>: no database error, or one, reported by one line, and exit 1.\<close>

definition fatal_shape :: "unit outcome \<Rightarrow> event list \<Rightarrow> bool" where
  "fatal_shape r es \<longleftrightarrow>
     (\<forall>x\<in>set es. \<not> db_error x)
   \<or> (\<exists>pre e msg. es = pre @ [e, Log (if bulk_query e then CRITICAL else ERROR) msg]
         \<and> (\<forall>x\<in>set pre. quiet x) \<and> db_error e \<and> r = Exit 1)"

text \<open>The example bot when the connection is lost at the bulk query of the guild table.\<close>

definition bulk_failing_state :: state where
  "bulk_failing_state =
     example_state\<lparr>db := example_db\<lparr>faults := [None, None, Some (PostgresError ''connection lost'')]\<rparr>\<rparr>"

fun critical :: "event \<Rightarrow> bool" where
  "critical (Log CRITICAL msg) = True"
| "critical ev = False"

fun is_Disconnect :: "event \<Rightarrow> bool" where
  "is_Disconnect (Disconnect x) = True"
| "is_Disconnect ev = False"

text \<open>
  Traces all of whose events satisfy \<open>P\<close>; and the trace of a run that releases the
  connection as its last step exactly when it returns.
\<close>

definition only :: "(event \<Rightarrow> bool) \<Rightarrow> 'a outcome \<Rightarrow> event list \<Rightarrow> bool" where
  "only P r es \<longleftrightarrow> (\<forall>x\<in>set es. P x)"

definition released :: "unit outcome \<Rightarrow> event list \<Rightarrow> bool" where
  "released r es \<longleftrightarrow>
     (if r = Return () then \<exists>pre. es = pre @ [Disconnect None] \<and> (\<forall>x\<in>set pre. \<not> is_Disconnect x)
      else Disconnect None \<notin> set es)"

text \<open>
  Traces whose phases never decrease and start at \<open>lo\<close> or later, and stay at \<open>hi\<close> or
  earlier when the run returns; traces that hold the events \<open>X\<close> when the run returns.
\<close>

definition within :: "nat \<Rightarrow> nat \<Rightarrow> 'a outcome \<Rightarrow> event list \<Rightarrow> bool" where
  "within lo hi r es \<longleftrightarrow>
     sorted (map phase es) \<and> (\<forall>x\<in>set es. lo \<le> phase x)
   \<and> ((\<exists>v. r = Return v) \<longrightarrow> (\<forall>x\<in>set es. phase x \<le> hi))"

definition contains :: "event set \<Rightarrow> 'a outcome \<Rightarrow> event list \<Rightarrow> bool" where
  "contains X r es \<longleftrightarrow> ((\<exists>v. r = Return v) \<longrightarrow> X \<subseteq> set es)"







text \<open>The events every successful run of \<open>startup\<close> contains.\<close>

definition startup_steps :: "event set" where
  "startup_steps =
     {ClearCache Guild, ClearCache User, GetConnection None,
      Sql (SelectSentinel Guild) None, Sql (SelectAll Guild) None,
      Sql (SelectSentinel User) None, Sql (SelectAll User) None,
      WaitUntilReady, Disconnect None}"

section \<open>Configuration\<close>

lemmas prog_defs = pbind_def try_except_def ret_def raise_def exit_def emit_def log_def

text \<open>
  Claim C9. \<open>reload_config\<close> reads and parses the configuration file once. When that
  succeeds, the parsed mapping replaces \<open>config\<close>, whatever it held. When it fails (the
  file is missing or does not parse), one line is logged at critical severity and the
  process exits with status 1: the file is not read again and the call does not return
  with the old configuration.
\<close>

theorem reload_config_replaces_or_exits:
  "(\<forall>c. files s (config_file s) = Inr c \<longrightarrow>
      reload_config s =
        (Return (), s\<lparr>config := Some c,
           trace := trace s @ [Log INFO ''Reloading config'', LoadToml (config_file s) None]\<rparr>))
 \<and> (\<forall>e. files s (config_file s) = Inl e \<longrightarrow>
      reload_config s =
        (Exit 1, s\<lparr>trace := trace s @ [Log INFO ''Reloading config'',
           LoadToml (config_file s) (Some e),
           Log CRITICAL (''Couldn't read config file - '' @ str_exn e)]\<rparr>))"
  by (simp add: reload_config_def prog_defs load_toml_def set_config_def)

theorem reload_config_witness:
  "fst (reload_config (blank ''config/config.toml'' example_files example_db True)) = Return ()
   \<and> config (snd (reload_config (blank ''config/config.toml'' example_files example_db True)))
       = Some example_config
   \<and> fst (reload_config (blank ''missing.toml'' example_files example_db True)) = Exit 1
   \<and> trace (snd (reload_config (blank ''missing.toml'' example_files example_db True)))
       = [Log INFO ''Reloading config'',
          LoadToml ''missing.toml'' (Some (OSError ''No such file or directory'')),
          Log CRITICAL ''Couldn't read config file - No such file or directory'']"
  using reload_config_replaces_or_exits [of "blank ''config/config.toml'' example_files example_db True"]
    reload_config_replaces_or_exits [of "blank ''missing.toml'' example_files example_db True"]
  by (simp add: blank_def example_files_def)

text \<open>
  Claim C10. Assigning to \<open>owner_ids\<close> changes nothing: the setter returns the state it
  was given, and \<open>owner_ids\<close> read afterwards is still the \<open>owners\<close> entry of the loaded
  configuration.
\<close>

theorem owner_ids_setter_no_effect:
  assumes "config s = Some c" and "c ''owners'' = Some owners"
  shows "owner_ids_setter v s = (Return (), s)
     \<and> owner_ids (snd (owner_ids_setter v s)) = (Return owners, s)"
  using assms by (simp add: owner_ids_setter_def owner_ids_def config_getitem_def)

lemma init_example:
  "init ''config/config.toml'' example_files example_db True =
     (Return (),
      \<lparr>config = Some example_config, config_file = ''config/config.toml'',
       DEFAULT_SETTINGS = (\<lambda>_. 0)(Guild := 0, User := 1),
       settings_cache = (\<lambda>_. Map.empty), cogs = [],
       heap = (\<lambda>_. Map.empty)(0 := [''prefix'' \<mapsto> VStr ''$''], 1 := Map.empty),
       next_ref = 2, files = example_files, db = example_db, ready = True,
       trace = [Log INFO ''Reloading config'', LoadToml ''config/config.toml'' None]\<rparr>)"
  by (simp add: init_def reload_config_def prog_defs load_toml_def set_config_def blank_def
      example_files_def config_getitem_def example_config_def new_dict_def set_DEFAULT_SETTINGS_def
      numeral_2_eq_2)

theorem owner_ids_setter_witness:
  "owner_ids_setter (VList [VInt 666]) (snd (init ''config/config.toml'' example_files example_db True))
     = (Return (), snd (init ''config/config.toml'' example_files example_db True))
   \<and> owner_ids (snd (owner_ids_setter (VList [VInt 666])
         (snd (init ''config/config.toml'' example_files example_db True))))
     = (Return (VList [VInt 7, VInt 8]), snd (init ''config/config.toml'' example_files example_db True))"
proof -
  have c: "config (snd (init ''config/config.toml'' example_files example_db True)) = Some example_config"
    by (simp add: init_example)
  have o: "example_config ''owners'' = Some (VList [VInt 7, VInt 8])"
    by (simp add: example_config_def)
  show ?thesis
    by (rule owner_ids_setter_no_effect [OF c o])
qed

section \<open>Reading the cache, merging the defaults\<close>

lemma pbind_Return:
  "m s = (Return x, s1) \<Longrightarrow> pbind m f s = f x s1"
  by (simp add: pbind_def)

lemma pbind_ReturnE:
  assumes "pbind m f s = (Return y, s')"
  obtains x s1 where "m s = (Return x, s1)" and "f x s1 = (Return y, s')"
  using assms by (auto simp: pbind_def split: prod.splits outcome.splits)

lemma hash_key_VInt: "hash_key (VInt i) s = (Return (KInt i), s)"
  by (simp add: hash_key_def)

lemma getitem_present:
  "settings_cache s t k = Some obj \<Longrightarrow> getitem t k s = (Return obj, s)"
  by (simp add: getitem_def)

lemma getitem_missing:
  "settings_cache s t k = None \<Longrightarrow>
   getitem t k s =
     (Return (next_ref s),
      s\<lparr>heap := (heap s)(next_ref s := heap s (DEFAULT_SETTINGS s t)),
        next_ref := Suc (next_ref s),
        settings_cache := (settings_cache s)(t := (settings_cache s t)(k \<mapsto> next_ref s))\<rparr>)"
  by (simp add: getitem_def deepcopy_def)

text \<open>
  Claim C1. Reading the settings cache at an entity ID that has no entry never fails. It
  returns a new object (not the default dict, not any cached entry) whose contents equal
  the current default mapping, leaves the defaults as they were, and stores the object
  under the ID; the next read, and every later read while the entry is still stored,
  returns that same object and changes nothing.
\<close>

theorem getitem_materialises_once:
  assumes "separate s" and "settings_cache s t (KInt i) = None"
  shows "\<exists>obj s'. getitem_val t (VInt i) s = (Return obj, s')
     \<and> heap s' obj = heap s (DEFAULT_SETTINGS s t)
     \<and> heap s' (DEFAULT_SETTINGS s' t) = heap s (DEFAULT_SETTINGS s t)
     \<and> (\<forall>t'. obj \<noteq> DEFAULT_SETTINGS s t') \<and> (\<forall>t' k'. settings_cache s t' k' \<noteq> Some obj)
     \<and> settings_cache s' = (settings_cache s)(t := (settings_cache s t)(KInt i \<mapsto> obj))
     \<and> getitem_val t (VInt i) s' = (Return obj, s')
     \<and> (\<forall>s''. settings_cache s'' t (KInt i) = Some obj \<longrightarrow>
            getitem_val t (VInt i) s'' = (Return obj, s''))"
proof -
  let ?obj = "next_ref s"
  let ?s' = "s\<lparr>heap := (heap s)(next_ref s := heap s (DEFAULT_SETTINGS s t)),
        next_ref := Suc (next_ref s),
        settings_cache := (settings_cache s)(t := (settings_cache s t)(KInt i \<mapsto> next_ref s))\<rparr>"
  have run: "getitem_val t (VInt i) s = (Return ?obj, ?s')"
    using assms(2) by (simp add: getitem_val_def pbind_Return [OF hash_key_VInt] getitem_missing)
  have fresh_default: "\<forall>t'. ?obj \<noteq> DEFAULT_SETTINGS s t'"
    using assms(1) by (auto simp: separate_def)
  have fresh_cache: "\<forall>t' k'. settings_cache s t' k' \<noteq> Some ?obj"
    using assms(1) by (fastforce simp: separate_def)
  have stable: "\<forall>s''. settings_cache s'' t (KInt i) = Some ?obj \<longrightarrow>
            getitem_val t (VInt i) s'' = (Return ?obj, s'')"
    by (simp add: getitem_val_def pbind_Return [OF hash_key_VInt] getitem_present)
  have again: "getitem_val t (VInt i) ?s' = (Return ?obj, ?s')"
    by (simp add: getitem_val_def pbind_Return [OF hash_key_VInt] getitem_present)
  have copy: "heap ?s' ?obj = heap s (DEFAULT_SETTINGS s t)"
    by simp
  have kept: "heap ?s' (DEFAULT_SETTINGS ?s' t) = heap s (DEFAULT_SETTINGS s t)"
    using fresh_default by simp
  have cache: "settings_cache ?s' = (settings_cache s)(t := (settings_cache s t)(KInt i \<mapsto> ?obj))"
    by simp
  from run copy kept fresh_default fresh_cache cache again stable show ?thesis
    by blast
qed

subsection \<open>setdefault\<close>

lemma setdefault_DEFAULT [simp]:
  "DEFAULT_SETTINGS (setdefault t k v s) = DEFAULT_SETTINGS s"
  by (simp add: setdefault_def Let_def)

lemma setdefault_items_DEFAULT [simp]:
  "DEFAULT_SETTINGS (setdefault_items t r s) = DEFAULT_SETTINGS s"
  by (induction t r s rule: setdefault_items.induct) simp_all

lemma setdefault_heap:
  "heap (setdefault t k v s) obj k' =
     (if obj = DEFAULT_SETTINGS s t \<and> k' = k \<and> heap s obj k = None then Some v else heap s obj k')"
  by (auto simp: setdefault_def Let_def split: option.splits)

lemma setdefault_items_heap:
  "heap (setdefault_items t r s) obj k =
     (if obj = DEFAULT_SETTINGS s t
      then (case heap s obj k of None \<Rightarrow> map_of r k | Some old \<Rightarrow> Some old)
      else heap s obj k)"
proof (induction t r s rule: setdefault_items.induct)
  case (1 t s)
  then show ?case by (simp split: option.splits)
next
  case (2 t i ov rest s)
  then show ?case by (simp add: setdefault_heap split: option.splits)
qed

text \<open>
  Claim C2. Merging the sentinel row into the defaults: for every column \<open>k\<close> of the row
  with value \<open>v\<close>, the default for \<open>k\<close> afterwards is the value it had before when it had
  one, and \<open>v\<close> otherwise.
\<close>

theorem setdefault_items_keeps_existing:
  assumes "distinct (map fst r)" and "(k, v) \<in> set r"
  shows "heap (setdefault_items t r s) (DEFAULT_SETTINGS (setdefault_items t r s) t) k =
     (case heap s (DEFAULT_SETTINGS s t) k of None \<Rightarrow> Some v | Some old \<Rightarrow> Some old)"
  using assms by (simp add: setdefault_items_heap split: option.splits)

section \<open>Assignments through the cache\<close>

lemma row_keyD:
  assumes "row_key t r = Some i"
  obtains idv where "map_of r (id_column t) = Some idv" and "key_of idv = Inr i"
  using assms by (auto simp: row_key_def split: option.splits sum.splits)

lemma assign_setting_present:
  assumes "row_key t r = Some i" and "settings_cache s t i = Some obj"
  shows "assign_setting t r k v s =
     (Return (), s\<lparr>heap := (heap s)(obj := (heap s obj)(k \<mapsto> v)),
                   trace := trace s @ [SetItem t i k v]\<rparr>)"
proof -
  from assms(1) obtain idv where "map_of r (id_column t) = Some idv" and "key_of idv = Inr i"
    by (rule row_keyD)
  then show ?thesis
    using assms(2)
    by (simp add: assign_setting_def pbind_def row_getitem_def hash_key_def getitem_def store_item_def)
qed

lemma assign_setting_missing:
  assumes "row_key t r = Some i" and "settings_cache s t i = None"
  shows "assign_setting t r k v s =
     (Return (),
      s\<lparr>heap := (heap s)(next_ref s := (heap s (DEFAULT_SETTINGS s t))(k \<mapsto> v)),
        next_ref := Suc (next_ref s),
        settings_cache := (settings_cache s)(t := (settings_cache s t)(i \<mapsto> next_ref s)),
        trace := trace s @ [SetItem t i k v]\<rparr>)"
proof -
  from assms(1) obtain idv where "map_of r (id_column t) = Some idv" and "key_of idv = Inr i"
    by (rule row_keyD)
  then show ?thesis
    using assms(2)
    by (simp add: assign_setting_def pbind_def row_getitem_def hash_key_def getitem_def
        deepcopy_def store_item_def)
qed

lemma separate_present:
  assumes "separate s" and "settings_cache s t i = Some obj"
  shows "assigned t i k v s (s\<lparr>heap := (heap s)(obj := (heap s obj)(k \<mapsto> v)),
                   trace := trace s @ [SetItem t i k v]\<rparr>)"
proof -
  let ?s' = "s\<lparr>heap := (heap s)(obj := (heap s obj)(k \<mapsto> v)),
                   trace := trace s @ [SetItem t i k v]\<rparr>"
  have sep: "separate ?s'"
    using assms(1) by (simp add: separate_def)
  have nd: "\<forall>t'. obj \<noteq> DEFAULT_SETTINGS s t'"
    using assms by (auto simp: separate_def)
  have dflt: "default_of ?s' = default_of s"
    using nd by (auto simp: default_of_def fun_eq_iff)
  have inj: "\<And>t' i'. settings_cache s t' i' = Some obj \<Longrightarrow> t' = t \<and> i' = i"
    using assms by (auto simp: separate_def)
  have ent: "entry ?s' = (entry s)(t := (entry s t)(i \<mapsto>
        (settings_of s t i)(k \<mapsto> v)))"
  proof (intro ext)
    fix t' i'
    show "entry ?s' t' i' = ((entry s)(t := (entry s t)(i \<mapsto>
        (settings_of s t i)(k \<mapsto> v)))) t' i'"
      using assms(2) inj [of t' i']
      by (cases "settings_cache s t' i'") (auto simp: entry_def settings_of_def)
  qed
  show ?thesis
    unfolding assigned_def kept_def using sep dflt ent by simp
qed

lemma separate_missing:
  assumes "separate s" and "settings_cache s t i = None"
  shows "assigned t i k v s
     (s\<lparr>heap := (heap s)(next_ref s := (heap s (DEFAULT_SETTINGS s t))(k \<mapsto> v)),
        next_ref := Suc (next_ref s),
        settings_cache := (settings_cache s)(t := (settings_cache s t)(i \<mapsto> next_ref s)),
        trace := trace s @ [SetItem t i k v]\<rparr>)"
proof -
  let ?s' = "s\<lparr>heap := (heap s)(next_ref s := (heap s (DEFAULT_SETTINGS s t))(k \<mapsto> v)),
        next_ref := Suc (next_ref s),
        settings_cache := (settings_cache s)(t := (settings_cache s t)(i \<mapsto> next_ref s)),
        trace := trace s @ [SetItem t i k v]\<rparr>"
  have lt: "\<And>t' i' obj. settings_cache s t' i' = Some obj \<Longrightarrow> obj < next_ref s"
    using assms(1) by (auto simp: separate_def)
  have dlt: "\<And>t'. DEFAULT_SETTINGS s t' < next_ref s"
    using assms(1) by (auto simp: separate_def)
  have sep: "separate ?s'"
    unfolding separate_def
  proof (intro conjI allI impI)
    fix t' show "DEFAULT_SETTINGS ?s' t' < next_ref ?s'"
      using dlt [of t'] by simp
  next
    show "DEFAULT_SETTINGS ?s' Guild \<noteq> DEFAULT_SETTINGS ?s' User"
      using assms(1) by (simp add: separate_def)
  next
    fix t' i' obj assume "settings_cache ?s' t' i' = Some obj"
    then show "obj < next_ref ?s'"
      using lt [of t' i' obj] by (auto split: if_splits)
  next
    fix t' i' obj t'' assume a: "settings_cache ?s' t' i' = Some obj"
    show "obj \<noteq> DEFAULT_SETTINGS ?s' t''"
    proof (cases "t' = t \<and> i' = i")
      case True
      with a have "obj = next_ref s" by simp
      then show ?thesis using dlt [of t''] by simp
    next
      case False
      with a have "settings_cache s t' i' = Some obj" by (auto split: if_splits)
      then show ?thesis using assms(1) by (auto simp: separate_def)
    qed
  next
    fix t1 i1 t2 i2 obj
    assume a: "settings_cache ?s' t1 i1 = Some obj" and b: "settings_cache ?s' t2 i2 = Some obj"
    have "t1 = t2 \<and> i1 = i2"
    proof (cases "t1 = t \<and> i1 = i")
      case True
      with a have o: "obj = next_ref s" by simp
      show ?thesis
      proof (cases "t2 = t \<and> i2 = i")
        case True
        with \<open>t1 = t \<and> i1 = i\<close> show ?thesis by simp
      next
        case False
        with b have "settings_cache s t2 i2 = Some obj" by (auto split: if_splits)
        with lt [of t2 i2 obj] o show ?thesis by simp
      qed
    next
      case False
      with a have a': "settings_cache s t1 i1 = Some obj" by (auto split: if_splits)
      show ?thesis
      proof (cases "t2 = t \<and> i2 = i")
        case True
        with b have "obj = next_ref s" by simp
        with lt [of t1 i1 obj] a' show ?thesis by simp
      next
        case False
        with b have "settings_cache s t2 i2 = Some obj" by (auto split: if_splits)
        with a' assms(1) show ?thesis unfolding separate_def by blast
      qed
    qed
    then show "t1 = t2" and "i1 = i2" by simp_all
  qed
  have dne: "DEFAULT_SETTINGS s t' \<noteq> next_ref s" for t'
    using dlt [of t'] by simp
  have dflt: "default_of ?s' = default_of s"
    by (simp add: default_of_def fun_eq_iff dne)
  have ent: "entry ?s' = (entry s)(t := (entry s t)(i \<mapsto>
        (settings_of s t i)(k \<mapsto> v)))"
  proof (intro ext)
    fix t' i'
    show "entry ?s' t' i' = ((entry s)(t := (entry s t)(i \<mapsto>
        (settings_of s t i)(k \<mapsto> v)))) t' i'"
      using assms(2) lt [of t' i']
      by (cases "settings_cache s t' i'") (auto simp: entry_def default_of_def settings_of_def)
  qed
  show ?thesis
    unfolding assigned_def kept_def using sep dflt ent by simp
qed

lemma assign_setting_assigned:
  assumes "separate s" and "row_key t r = Some i"
  shows "\<exists>s'. assign_setting t r k v s = (Return (), s') \<and> assigned t i k v s s'"
proof (cases "settings_cache s t i")
  case None
  then show ?thesis
    using assign_setting_missing [OF assms(2) None] separate_missing [OF assms(1) None] by simp
next
  case (Some obj)
  then show ?thesis
    using assign_setting_present [OF assms(2) Some] separate_present [OF assms(1) Some] by simp
qed

lemma kept_refl: "separate s \<Longrightarrow> kept s s"
  by (simp add: kept_def)

lemma kept_trans: "kept s s1 \<Longrightarrow> kept s1 s2 \<Longrightarrow> kept s s2"
  by (simp add: kept_def)

lemma update_items_Cons: "update_items ((k, v) # rest) d = update_items rest (d(k \<mapsto> v))"
  by (simp add: update_items_def)

lemma update_items_other: "k \<notin> fst ` set kvs \<Longrightarrow> update_items kvs d k = d k"
  by (induction kvs arbitrary: d) (auto simp: update_items_def)

lemma update_items_member:
  "distinct (map fst kvs) \<Longrightarrow> (k, v) \<in> set kvs \<Longrightarrow> update_items kvs d k = Some v"
proof (induction kvs arbitrary: d)
  case Nil
  then show ?case by simp
next
  case (Cons a kvs)
  obtain k' v' where a: "a = (k', v')" by (cases a)
  show ?case
  proof (cases "(k, v) = a")
    case True
    with Cons.prems a have "k \<notin> fst ` set kvs" by auto
    with True a show ?thesis
      by (simp add: update_items_Cons update_items_other)
  next
    case False
    with Cons.prems have mem: "(k, v) \<in> set kvs" and dist: "distinct (map fst kvs)"
      by simp_all
    from Cons.IH [OF dist mem] a show ?thesis
      by (simp add: update_items_Cons)
  qed
qed

lemma assign_items_present:
  assumes "separate s" and "row_key t r = Some i" and "entry s t i = Some d"
  shows "\<exists>s'. assign_items t r items s = (Return (), s') \<and> kept s s'
     \<and> entry s' = (entry s)(t := (entry s t)(i \<mapsto> update_items items d))"
  using assms(1,3)
proof (induction items arbitrary: s d)
  case Nil
  have "assign_items t r [] s = (Return (), s)"
    by simp
  moreover have "kept s s"
    using Nil(1) by (rule kept_refl)
  moreover have "entry s = (entry s)(t := (entry s t)(i \<mapsto> update_items [] d))"
    using Nil(2) by (auto simp: fun_eq_iff update_items_def)
  ultimately show ?case by blast
next
  case (Cons a items)
  obtain k v where a: "a = (k, v)" by (cases a)
  from assign_setting_assigned [OF Cons.prems(1) assms(2)]
  obtain s1 where run1: "assign_setting t r k v s = (Return (), s1)" and as: "assigned t i k v s s1"
    by blast
  from as Cons.prems(2) have e1: "entry s1 t i = Some (d(k \<mapsto> v))"
    by (simp add: assigned_def settings_of_def)
  from as have sep1: "separate s1" and k1: "kept s s1"
    by (simp_all add: assigned_def kept_def)
  from Cons.IH [OF sep1 e1]
  obtain s' where run2: "assign_items t r items s1 = (Return (), s')" and k2: "kept s1 s'"
    and e2: "entry s' = (entry s1)(t := (entry s1 t)(i \<mapsto> update_items items (d(k \<mapsto> v))))"
    by blast
  have e: "entry s' = (entry s)(t := (entry s t)(i \<mapsto> update_items (a # items) d))"
    using e2 as by (simp add: assigned_def a update_items_Cons)
  have run: "assign_items t r (a # items) s = (Return (), s')"
    using run1 run2 a by simp
  from run kept_trans [OF k1 k2] e show ?case by blast
qed

lemma assign_items_row:
  assumes "separate s" and "row_key t r = Some i" and "items \<noteq> []"
  shows "\<exists>s'. assign_items t r items s = (Return (), s') \<and> kept s s'
     \<and> entry s' = (entry s)(t := (entry s t)(i \<mapsto> update_items items (settings_of s t i)))"
proof -
  from assms(3) obtain k v rest where items: "items = (k, v) # rest"
    by (cases items) auto
  from assign_setting_assigned [OF assms(1,2)]
  obtain s1 where run1: "assign_setting t r k v s = (Return (), s1)" and as: "assigned t i k v s s1"
    by blast
  from as have e1: "entry s1 t i = Some ((settings_of s t i)(k \<mapsto> v))"
    by (simp add: assigned_def)
  from as have sep1: "separate s1" and k1: "kept s s1"
    by (simp_all add: assigned_def kept_def)
  from assign_items_present [OF sep1 assms(2) e1]
  obtain s' where run2: "assign_items t r rest s1 = (Return (), s')" and k2: "kept s1 s'"
    and e2: "entry s' = (entry s1)(t := (entry s1 t)(i \<mapsto>
               update_items rest ((settings_of s t i)(k \<mapsto> v))))"
    by blast
  have e: "entry s' = (entry s)(t := (entry s t)(i \<mapsto> update_items items (settings_of s t i)))"
    using e2 as by (simp add: assigned_def items update_items_Cons)
  have run: "assign_items t r items s = (Return (), s')"
    using run1 run2 items by simp
  from run kept_trans [OF k1 k2] e show ?thesis by blast
qed

lemma row_key_nonempty: "row_key t r = Some i \<Longrightarrow> r \<noteq> []"
  by (auto simp: row_key_def)

lemma settings_of_cong:
  "entry s1 t i = entry s t i \<Longrightarrow> default_of s1 = default_of s \<Longrightarrow> settings_of s1 t i = settings_of s t i"
  by (simp add: settings_of_def split: option.splits)

lemma hydrate_rows_entries:
  assumes "separate s" and "\<forall>r\<in>set rows. row_key t r \<noteq> None"
    and "distinct (map (row_key t) rows)"
  shows "\<exists>s'. hydrate_rows t rows s = (Return (), s') \<and> kept s s'
     \<and> (\<forall>t' i. (t' \<noteq> t \<or> Some i \<notin> row_key t ` set rows) \<longrightarrow> entry s' t' i = entry s t' i)
     \<and> (\<forall>r\<in>set rows. \<forall>i. row_key t r = Some i \<longrightarrow>
            entry s' t i = Some (update_items r (settings_of s t i)))"
  using assms
proof (induction rows arbitrary: s)
  case Nil
  then show ?case by (simp add: kept_refl)
next
  case (Cons r rows)
  from Cons.prems(2) obtain i where i: "row_key t r = Some i" by auto
  from assign_items_row [OF Cons.prems(1) i row_key_nonempty [OF i]]
  obtain s1 where run1: "assign_items t r r s = (Return (), s1)" and k1: "kept s s1"
    and e1: "entry s1 = (entry s)(t := (entry s t)(i \<mapsto> update_items r (settings_of s t i)))"
    by blast
  from k1 have sep1: "separate s1" and d1: "default_of s1 = default_of s"
    by (simp_all add: kept_def)
  from Cons.prems have wf: "\<forall>r\<in>set rows. row_key t r \<noteq> None"
    and dist: "distinct (map (row_key t) rows)" and fresh: "Some i \<notin> row_key t ` set rows"
    using i by auto
  from Cons.IH [OF sep1 wf dist]
  obtain s' where run2: "hydrate_rows t rows s1 = (Return (), s')" and k2: "kept s1 s'"
    and other: "\<forall>t' j. (t' \<noteq> t \<or> Some j \<notin> row_key t ` set rows) \<longrightarrow> entry s' t' j = entry s1 t' j"
    and mine: "\<forall>r'\<in>set rows. \<forall>j. row_key t r' = Some j \<longrightarrow>
            entry s' t j = Some (update_items r' (settings_of s1 t j))"
    by blast
  have run: "hydrate_rows t (r # rows) s = (Return (), s')"
    using run1 run2 by simp
  have other': "\<forall>t' j. (t' \<noteq> t \<or> Some j \<notin> row_key t ` set (r # rows)) \<longrightarrow> entry s' t' j = entry s t' j"
    using other e1 i by auto
  have mine': "\<forall>r'\<in>set (r # rows). \<forall>j. row_key t r' = Some j \<longrightarrow>
            entry s' t j = Some (update_items r' (settings_of s t j))"
  proof (intro ballI allI impI)
    fix r' j assume mem: "r' \<in> set (r # rows)" and j: "row_key t r' = Some j"
    show "entry s' t j = Some (update_items r' (settings_of s t j))"
    proof (cases "r' \<in> set rows")
      case True
      with fresh j have ne: "j \<noteq> i" by force
      then have "entry s1 t j = entry s t j" using e1 by simp
      then have "settings_of s1 t j = settings_of s t j"
        using d1 by (rule settings_of_cong)
      with mine True j show ?thesis by simp
    next
      case False
      with mem have "r' = r" by simp
      with i j have "j = i" by simp
      with other fresh e1 \<open>r' = r\<close> show ?thesis by simp
    qed
  qed
  from run kept_trans [OF k1 k2] other' mine' show ?case by blast
qed

section \<open>The steps of startup on the store and the tables\<close>

lemma same_store_refl [simp]: "same_store s s"
  by (simp add: same_store_def)

lemma same_store_trans: "same_store s s1 \<Longrightarrow> same_store s1 s2 \<Longrightarrow> same_store s s2"
  by (simp add: same_store_def)

lemma same_tables_refl [simp]: "same_tables s s"
  by (simp add: same_tables_def)

lemma same_tables_trans: "same_tables s s1 \<Longrightarrow> same_tables s1 s2 \<Longrightarrow> same_tables s s2"
  by (simp add: same_tables_def)

lemma same_store_view:
  assumes "same_store s s'"
  shows "entry s' = entry s" and "default_of s' = default_of s" and "separate s' = separate s"
proof -
  from assms have h: "settings_cache s' = settings_cache s" "heap s' = heap s"
    "DEFAULT_SETTINGS s' = DEFAULT_SETTINGS s" "next_ref s' = next_ref s"
    by (simp_all add: same_store_def)
  show "entry s' = entry s"
    by (intro ext) (simp add: entry_def h)
  show "default_of s' = default_of s"
    by (intro ext) (simp add: default_of_def h)
  show "separate s' = separate s"
    by (simp add: separate_def h)
qed

lemma take_fault_tables:
  "take_fault d = (x, d') \<Longrightarrow> tables d' = tables d \<and> column_defaults d' = column_defaults d"
  by (auto simp: take_fault_def split: list.splits)

lemma take_fault_sentinel_rows:
  "take_fault d = (x, d') \<Longrightarrow> sentinel_rows t d' = sentinel_rows t d"
  by (auto simp: take_fault_def sentinel_rows_def split: list.splits)

lemma get_connection_store: "get_connection s = (r, s') \<Longrightarrow> same_store s s' \<and> same_tables s s'"
  by (auto simp: get_connection_def same_store_def same_tables_def
      split: prod.splits option.splits dest: take_fault_tables)

lemma disconnect_store: "disconnect s = (r, s') \<Longrightarrow> same_store s s' \<and> same_tables s s'"
  by (auto simp: disconnect_def same_store_def same_tables_def
      split: prod.splits option.splits dest: take_fault_tables)

lemma wait_until_ready_store: "wait_until_ready s = (r, s') \<Longrightarrow> same_store s s' \<and> same_tables s s'"
  by (auto simp: wait_until_ready_def same_store_def same_tables_def split: if_splits)

lemma log_eq: "log lv msg s = (Return (), s\<lparr>trace := trace s @ [Log lv msg]\<rparr>)"
  by (simp add: log_def emit_def)

lemma db_call_store: "db_call q s = (r, s') \<Longrightarrow> same_store s s'"
  by (auto simp: db_call_def same_store_def split: prod.splits option.splits sum.splits)

lemma db_call_SelectSentinel:
  assumes "db_call (SelectSentinel t) s = (Return rows, s')"
  shows "rows = sentinel_rows t (db s) \<and> same_tables s s'"
  using assms
  by (auto simp: db_call_def db_exec_def same_tables_def
      split: prod.splits option.splits sum.splits
      dest: take_fault_tables take_fault_sentinel_rows)

lemma db_call_SelectAll:
  assumes "db_call (SelectAll t) s = (Return rows, s')"
  shows "rows = tables (db s) t \<and> same_tables s s'"
  using assms
  by (auto simp: db_call_def db_exec_def same_tables_def
      split: prod.splits option.splits sum.splits dest: take_fault_tables)

lemma db_call_InsertSentinel:
  assumes "db_call (InsertSentinel t) s = (Return rows, s')" and "sentinel_rows t (db s) = []"
  shows "rows = [(id_column t, VInt 0) # column_defaults (db s) t]
     \<and> tables (db s') = (tables (db s))(t := tables (db s) t @ [(id_column t, VInt 0) # column_defaults (db s) t])
     \<and> column_defaults (db s') = column_defaults (db s)"
  using assms
  by (auto simp: db_call_def db_exec_def Let_def
      split: prod.splits option.splits sum.splits if_splits
      dest: take_fault_tables take_fault_sentinel_rows)

lemma call_cache_setup_store: "call_cache_setup c s = (r, s') \<Longrightarrow> same_store s s'"
  by (auto simp: call_cache_setup_def same_store_def split: option.splits prod.splits)

lemma run_cache_setup_store: "run_cache_setup cs s = (r, s') \<Longrightarrow> same_store s s'"
proof (induction cs arbitrary: s)
  case Nil
  then show ?case by simp
next
  case (Cons c cs)
  obtain r1 s1 where c: "call_cache_setup c s = (r1, s1)" by (cases "call_cache_setup c s")
  then have s1: "same_store s s1" by (rule call_cache_setup_store)
  show ?case
  proof (cases r1)
    case (Return u)
    with Cons.prems c have "run_cache_setup cs s1 = (r, s')" by simp
    from same_store_trans [OF s1 Cons.IH [OF this]] show ?thesis .
  qed (use Cons.prems c s1 in auto)
qed

subsection \<open>Merging the sentinel row into the defaults\<close>

lemma setdefault_fields [simp]:
  "settings_cache (setdefault t k v s) = settings_cache s"
  "next_ref (setdefault t k v s) = next_ref s"
  "db (setdefault t k v s) = db s"
  "cogs (setdefault t k v s) = cogs s"
  by (simp_all add: setdefault_def Let_def)

lemma setdefault_items_fields [simp]:
  "settings_cache (setdefault_items t r s) = settings_cache s"
  "next_ref (setdefault_items t r s) = next_ref s"
  "db (setdefault_items t r s) = db s"
  "cogs (setdefault_items t r s) = cogs s"
  by (induction t r s rule: setdefault_items.induct) simp_all

lemma setdefault_items_view:
  assumes "separate s"
  shows "separate (setdefault_items t r s)"
    and "entry (setdefault_items t r s) = entry s"
    and "default_of (setdefault_items t r s) = (default_of s)(t := merged (default_of s t) r)"
proof -
  let ?s' = "setdefault_items t r s"
  show "separate ?s'"
    using assms by (simp add: separate_def)
  have nd: "settings_cache s t' i = Some obj \<Longrightarrow> obj \<noteq> DEFAULT_SETTINGS s t" for t' i obj
    using assms by (auto simp: separate_def)
  show "entry ?s' = entry s"
  proof (intro ext)
    fix t' i show "entry ?s' t' i = entry s t' i"
      using nd [of t' i]
      by (cases "settings_cache s t' i") (auto simp: entry_def setdefault_items_heap fun_eq_iff)
  qed
  have two: "t' \<noteq> t \<Longrightarrow> DEFAULT_SETTINGS s t' \<noteq> DEFAULT_SETTINGS s t" for t'
    using assms by (cases t; cases t') (auto simp: separate_def)
  show "default_of ?s' = (default_of s)(t := merged (default_of s t) r)"
  proof (intro ext)
    fix t' k show "default_of ?s' t' k = ((default_of s)(t := merged (default_of s t) r)) t' k"
      using two [of t'] by (simp add: default_of_def setdefault_items_heap merged_def)
  qed
qed

lemma first_row_Return:
  "first_row rows s = (Return r, s') \<Longrightarrow> s' = s \<and> (\<exists>rs. rows = r # rs)"
  by (auto simp: first_row_def split: list.splits)

lemma get_default_settings_Return:
  assumes "get_default_settings t s = (Return (), s')"
  shows "\<exists>s1. same_store s s1 \<and> s' = setdefault_items t (sentinel_row t (db s)) s1
      \<and> tables (db s') = (tables (db s))(t := rows_with_sentinel t (db s))
      \<and> column_defaults (db s') = column_defaults (db s)"
proof -
  from assms obtain found s1 where
    sel: "db_call (SelectSentinel t) s = (Return found, s1)" and
    rest: "pbind (if found = [] then db_call (InsertSentinel t) else ret found)
             (\<lambda>default_settings. pbind (first_row default_settings)
                (\<lambda>r s. (Return (), setdefault_items t r s))) s1 = (Return (), s')"
    unfolding get_default_settings_def by (rule pbind_ReturnE)
  from rest obtain found' s2 where
    ins: "(if found = [] then db_call (InsertSentinel t) else ret found) s1 = (Return found', s2)" and
    rest2: "pbind (first_row found') (\<lambda>r s. (Return (), setdefault_items t r s)) s2 = (Return (), s')"
    by (rule pbind_ReturnE)
  from rest2 obtain r s3 where
    fr: "first_row found' s2 = (Return r, s3)" and fin: "(Return (), setdefault_items t r s3) = (Return (), s')"
    by (rule pbind_ReturnE)
  from first_row_Return [OF fr] obtain rs where s3: "s3 = s2" and found': "found' = r # rs"
    by blast
  from db_call_SelectSentinel [OF sel] have found: "found = sentinel_rows t (db s)"
    and t1: "same_tables s s1" by simp_all
  have st1: "same_store s s1" using sel by (rule db_call_store)
  have sr1: "sentinel_rows t (db s1) = sentinel_rows t (db s)"
    using t1 by (simp add: same_tables_def sentinel_rows_def)
  show ?thesis
  proof (cases "found = []")
    case True
    with ins have ins': "db_call (InsertSentinel t) s1 = (Return found', s2)" by simp
    from True found sr1 have "sentinel_rows t (db s1) = []" by simp
    from db_call_InsertSentinel [OF ins' this] t1
    have f: "found' = [(id_column t, VInt 0) # column_defaults (db s) t]"
      and tb: "tables (db s2) = (tables (db s))(t := tables (db s) t @ [(id_column t, VInt 0) # column_defaults (db s) t])"
      and cd: "column_defaults (db s2) = column_defaults (db s)"
      by (simp_all add: same_tables_def)
    have st2: "same_store s s2"
      using st1 db_call_store [OF ins'] by (rule same_store_trans)
    from f found' have r: "r = sentinel_row t (db s)"
      using True found by (simp add: sentinel_row_def)
    have tb': "tables (db s2) = (tables (db s))(t := rows_with_sentinel t (db s))"
      using tb True found by (simp add: rows_with_sentinel_def)
    from st2 r tb' cd fin s3 show ?thesis by auto
  next
    case False
    with ins have "s2 = s1" and "found' = found" by (simp_all add: ret_def)
    with found found' False have r: "r = sentinel_row t (db s)"
      by (cases "sentinel_rows t (db s)") (simp_all add: sentinel_row_def)
    have tb': "tables (db s1) = (tables (db s))(t := rows_with_sentinel t (db s))"
      using t1 False found by (simp add: rows_with_sentinel_def same_tables_def)
    have cd: "column_defaults (db s1) = column_defaults (db s)"
      using t1 by (simp add: same_tables_def)
    from st1 r tb' cd fin s3 \<open>s2 = s1\<close> show ?thesis by auto
  qed
qed

subsection \<open>Hydrating rows: what is left alone\<close>

lemma assign_setting_no_key:
  assumes "row_key t r = None"
  shows "\<exists>e. assign_setting t r k v s = (Raise e, s)"
  using assms
  by (auto simp: assign_setting_def pbind_def row_getitem_def hash_key_def row_key_def
      split: option.splits sum.splits)

lemma assign_items_no_key:
  assumes "row_key t r = None"
  shows "snd (assign_items t r items s) = s \<and> (items \<noteq> [] \<longrightarrow> (\<exists>e. fst (assign_items t r items s) = Raise e))"
proof (cases items)
  case Nil
  then show ?thesis by simp
next
  case (Cons a rest)
  obtain k v where "a = (k, v)" by (cases a)
  with Cons assign_setting_no_key [OF assms, of k v s] show ?thesis by auto
qed

lemma left_alone_refl: "separate s \<Longrightarrow> left_alone t ks s s"
  by (simp add: left_alone_def kept_refl)

lemma left_alone_trans:
  "left_alone t ks s s1 \<Longrightarrow> left_alone t ks' s1 s2 \<Longrightarrow> left_alone t (ks \<union> ks') s s2"
  unfolding left_alone_def using kept_trans by (metis Un_iff)

lemma left_alone_mono:
  "left_alone t ks s s' \<Longrightarrow> ks \<subseteq> ks' \<Longrightarrow> left_alone t ks' s s'"
  unfolding left_alone_def by blast

lemma assign_items_left_alone:
  assumes "separate s" and "assign_items t r items s = (res, s')"
  shows "left_alone t {row_key t r} s s'"
proof (cases "row_key t r")
  case None
  with assign_items_no_key [OF None, of items s] assms show ?thesis
    by (simp add: left_alone_refl)
next
  case (Some i)
  show ?thesis
  proof (cases "items = []")
    case True
    with assms show ?thesis by (simp add: left_alone_refl)
  next
    case False
    from assign_items_row [OF assms(1) Some False] assms(2) Some
    show ?thesis by (auto simp: left_alone_def)
  qed
qed

lemma hydrate_rows_left_alone:
  assumes "separate s" and "hydrate_rows t rows s = (res, s')"
  shows "left_alone t (row_key t ` set rows) s s'"
  using assms
proof (induction rows arbitrary: s)
  case Nil
  then show ?case by (simp add: left_alone_refl)
next
  case (Cons r rows)
  obtain r1 s1 where a: "assign_items t r r s = (r1, s1)" by (cases "assign_items t r r s")
  from assign_items_left_alone [OF Cons.prems(1) a]
  have la1: "left_alone t {row_key t r} s s1" .
  then have sep1: "separate s1" by (simp add: left_alone_def kept_def)
  show ?case
  proof (cases r1)
    case (Return u)
    with Cons.prems(2) a have "hydrate_rows t rows s1 = (res, s')" by simp
    from left_alone_trans [OF la1 Cons.IH [OF sep1 this]] show ?thesis by simp
  next
    case (Raise e)
    with Cons.prems(2) a have "s' = s1" by simp
    with left_alone_mono [OF la1, of "row_key t ` set (r # rows)"] show ?thesis by simp
  next
    case (Exit c)
    with Cons.prems(2) a have "s' = s1" by simp
    with left_alone_mono [OF la1, of "row_key t ` set (r # rows)"] show ?thesis by simp
  next
    case Blocked
    with Cons.prems(2) a have "s' = s1" by simp
    with left_alone_mono [OF la1, of "row_key t ` set (r # rows)"] show ?thesis by simp
  qed
qed

lemma try_except_Return:
  assumes "try_except m (\<lambda>e. pbind (log lv (msg e)) (\<lambda>_. exit c)) s = (Return x, s')"
  shows "m s = (Return x, s')"
  using assms
  by (auto simp: try_except_def pbind_def log_def emit_def exit_def split: prod.splits outcome.splits)

lemma get_all_table_data_Return:
  assumes "get_all_table_data t s = (Return rows, s')"
  shows "rows = tables (db s) t \<and> same_tables s s' \<and> same_store s s'"
proof -
  from assms have "db_call (SelectAll t) s = (Return rows, s')"
    unfolding get_all_table_data_def run_sql_exit_on_error_def by (rule try_except_Return)
  with db_call_SelectAll [OF this] db_call_store [OF this] show ?thesis by simp
qed

lemma get_settings_Return:
  assumes "get_settings t s = (Return (), s')"
  shows "\<exists>s1. same_store s s1 \<and> same_tables s s1 \<and> hydrate_rows t (tables (db s) t) s1 = (Return (), s')"
proof -
  from assms obtain rows s1 where a: "get_all_table_data t s = (Return rows, s1)"
    and h: "hydrate_rows t rows s1 = (Return (), s')"
    unfolding get_settings_def by (rule pbind_ReturnE)
  from get_all_table_data_Return [OF a] h show ?thesis by auto
qed

text \<open>The states a successful run of \<open>startup\<close> passes through.\<close>

lemma startup_ReturnE:
  assumes "startup s = (Return (), s')"
  obtains sa sb sc sd se sf sg sh where
    "settings_cache sa = (\<lambda>t. Map.empty)" and "heap sa = heap s"
    and "DEFAULT_SETTINGS sa = DEFAULT_SETTINGS s" and "next_ref sa = next_ref s"
    and "db sa = db s" and "cogs sa = cogs s"
    and "trace sa = trace s @ [Log DEBUG ''Clearing caches'', ClearCache Guild, ClearCache User]"
    and "get_connection sa = (Return (), sb)"
    and "get_default_settings Guild sb = (Return (), sc)"
    and "get_settings Guild sc = (Return (), sd)"
    and "get_default_settings User sd = (Return (), se)"
    and "get_settings User se = (Return (), sf)"
    and "run_cache_setup (cogs sf) sf = (Return (), sg)"
    and "wait_until_ready (sg\<lparr>trace := trace sg @
           [Log DEBUG ''Waiting until ready before completing startup method.'']\<rparr>) = (Return (), sh)"
    and "disconnect sh = (Return (), s')"
proof -
  from assms have impl: "startup_impl s = (Return (), s')"
    unfolding startup_def by (rule try_except_Return)
  define sa where "sa = s\<lparr>settings_cache := (settings_cache s)(Guild := Map.empty, User := Map.empty),
      trace := trace s @ [Log DEBUG ''Clearing caches'', ClearCache Guild, ClearCache User]\<rparr>"
  have sc: "settings_cache sa = (\<lambda>t. Map.empty)"
  proof
    fix t show "settings_cache sa t = Map.empty" by (cases t) (simp_all add: sa_def)
  qed
  have head: "startup_impl s =
     pbind get_connection (\<lambda>_.
     pbind (get_default_settings Guild) (\<lambda>_.
     pbind (get_settings Guild) (\<lambda>_.
     pbind (get_default_settings User) (\<lambda>_.
     pbind (get_settings User) (\<lambda>_.
     pbind (\<lambda>s. run_cache_setup (cogs s) s) (\<lambda>_.
     pbind (log DEBUG ''Waiting until ready before completing startup method.'') (\<lambda>_.
     pbind wait_until_ready (\<lambda>_.
     disconnect)))))))) sa"
    by (simp add: startup_impl_def pbind_def log_def emit_def clear_def sa_def)
  from impl [unfolded head] obtain u1 sb where 1: "get_connection sa = (Return u1, sb)" and
    r1: "pbind (get_default_settings Guild) (\<lambda>_.
     pbind (get_settings Guild) (\<lambda>_.
     pbind (get_default_settings User) (\<lambda>_.
     pbind (get_settings User) (\<lambda>_.
     pbind (\<lambda>s. run_cache_setup (cogs s) s) (\<lambda>_.
     pbind (log DEBUG ''Waiting until ready before completing startup method.'') (\<lambda>_.
     pbind wait_until_ready (\<lambda>_.
     disconnect))))))) sb = (Return (), s')"
    by (rule pbind_ReturnE)
  from r1 obtain u2 sc' where 2: "get_default_settings Guild sb = (Return u2, sc')" and
    r2: "pbind (get_settings Guild) (\<lambda>_.
     pbind (get_default_settings User) (\<lambda>_.
     pbind (get_settings User) (\<lambda>_.
     pbind (\<lambda>s. run_cache_setup (cogs s) s) (\<lambda>_.
     pbind (log DEBUG ''Waiting until ready before completing startup method.'') (\<lambda>_.
     pbind wait_until_ready (\<lambda>_.
     disconnect)))))) sc' = (Return (), s')"
    by (rule pbind_ReturnE)
  from r2 obtain u3 sd where 3: "get_settings Guild sc' = (Return u3, sd)" and
    r3: "pbind (get_default_settings User) (\<lambda>_.
     pbind (get_settings User) (\<lambda>_.
     pbind (\<lambda>s. run_cache_setup (cogs s) s) (\<lambda>_.
     pbind (log DEBUG ''Waiting until ready before completing startup method.'') (\<lambda>_.
     pbind wait_until_ready (\<lambda>_.
     disconnect))))) sd = (Return (), s')"
    by (rule pbind_ReturnE)
  from r3 obtain u4 se where 4: "get_default_settings User sd = (Return u4, se)" and
    r4: "pbind (get_settings User) (\<lambda>_.
     pbind (\<lambda>s. run_cache_setup (cogs s) s) (\<lambda>_.
     pbind (log DEBUG ''Waiting until ready before completing startup method.'') (\<lambda>_.
     pbind wait_until_ready (\<lambda>_.
     disconnect)))) se = (Return (), s')"
    by (rule pbind_ReturnE)
  from r4 obtain u5 sf where 5: "get_settings User se = (Return u5, sf)" and
    r5: "pbind (\<lambda>s. run_cache_setup (cogs s) s) (\<lambda>_.
     pbind (log DEBUG ''Waiting until ready before completing startup method.'') (\<lambda>_.
     pbind wait_until_ready (\<lambda>_.
     disconnect))) sf = (Return (), s')"
    by (rule pbind_ReturnE)
  from r5 obtain u6 sg where 6: "run_cache_setup (cogs sf) sf = (Return u6, sg)" and
    r6: "pbind (log DEBUG ''Waiting until ready before completing startup method.'') (\<lambda>_.
     pbind wait_until_ready (\<lambda>_.
     disconnect)) sg = (Return (), s')"
    by (rule pbind_ReturnE)
  from r6 have r7: "pbind wait_until_ready (\<lambda>_. disconnect)
      (sg\<lparr>trace := trace sg @ [Log DEBUG ''Waiting until ready before completing startup method.'']\<rparr>)
      = (Return (), s')"
    by (simp add: pbind_Return [OF log_eq])
  from r7 obtain u8 sh where 8: "wait_until_ready
      (sg\<lparr>trace := trace sg @ [Log DEBUG ''Waiting until ready before completing startup method.'']\<rparr>)
      = (Return u8, sh)" and 9: "disconnect sh = (Return (), s')"
    by (rule pbind_ReturnE)
  show ?thesis
    using that [of sa sb sc' sd se sf sg sh] sc 1 2 3 4 5 6 8 9 by (simp add: sa_def)
qed

subsection \<open>The keys of the cache\<close>

lemma assign_setting_keys:
  assumes "assign_setting t r k v s = (Return u, s')"
  shows "dom (settings_cache s' t') =
     dom (settings_cache s t') \<union> (if t' = t then {i. row_key t r = Some i} else {})"
proof (cases "row_key t r")
  case None
  with assign_setting_no_key [OF None, of k v s] assms show ?thesis by auto
next
  case (Some i)
  show ?thesis
  proof (cases "settings_cache s t i")
    case None
    from assign_setting_missing [OF Some None, of k v] assms Some show ?thesis by auto
  next
    case (Some obj)
    from assign_setting_present [OF \<open>row_key t r = Some i\<close> Some, of k v] assms
      \<open>row_key t r = Some i\<close> Some show ?thesis by auto
  qed
qed

lemma assign_items_keys:
  assumes "assign_items t r items s = (Return u, s')"
  shows "dom (settings_cache s' t') =
     dom (settings_cache s t') \<union> (if t' = t \<and> items \<noteq> [] then {i. row_key t r = Some i} else {})"
  using assms
proof (induction items arbitrary: s)
  case Nil
  then show ?case by simp
next
  case (Cons a items)
  obtain k v where a: "a = (k, v)" by (cases a)
  obtain r1 s1 where 1: "assign_setting t r k v s = (r1, s1)" by (cases "assign_setting t r k v s")
  with Cons.prems a obtain u1 where r1: "r1 = Return u1" and 2: "assign_items t r items s1 = (Return u, s')"
    by (cases r1) auto
  from assign_setting_keys [OF 1 [unfolded r1], of t'] Cons.IH [OF 2]
  show ?case by auto
qed

lemma hydrate_rows_keys:
  assumes "hydrate_rows t rows s = (Return u, s')"
  shows "dom (settings_cache s' t') =
     dom (settings_cache s t') \<union> (if t' = t then {i. Some i \<in> row_key t ` set rows} else {})"
  using assms
proof (induction rows arbitrary: s)
  case Nil
  then show ?case by simp
next
  case (Cons r rows)
  obtain r1 s1 where 1: "assign_items t r r s = (r1, s1)" by (cases "assign_items t r r s")
  with Cons.prems obtain u1 where r1: "r1 = Return u1" and 2: "hydrate_rows t rows s1 = (Return u, s')"
    by (cases r1) auto
  have empty: "r = [] \<Longrightarrow> row_key t r = None"
    by (simp add: row_key_def)
  from assign_items_keys [OF 1 [unfolded r1], of t'] Cons.IH [OF 2] empty
  show ?case by (cases "r = []") auto
qed

lemma same_tables_rows_with_sentinel:
  assumes "tables (db s') t = tables (db s) t" and "column_defaults (db s') = column_defaults (db s)"
  shows "rows_with_sentinel t (db s') = rows_with_sentinel t (db s)"
    and "sentinel_row t (db s') = sentinel_row t (db s)"
  using assms by (simp_all add: rows_with_sentinel_def sentinel_row_def sentinel_rows_def split: list.splits)

lemma sentinel_in_rows: "\<exists>r\<in>set (rows_with_sentinel t d). row_key t r = Some (KInt 0)"
proof (cases "sentinel_rows t d")
  case Nil
  then show ?thesis by (simp add: rows_with_sentinel_def row_key_def)
next
  case (Cons r rs)
  then have "r \<in> set (sentinel_rows t d)" by simp
  then have "r \<in> set (tables d t)" and "map_of r (id_column t) = Some (VInt 0)"
    by (simp_all add: sentinel_rows_def)
  then have "row_key t r = Some (KInt 0)"
    by (simp add: row_key_def)
  with \<open>r \<in> set (tables d t)\<close> Cons show ?thesis
    by (auto simp: rows_with_sentinel_def)
qed

lemma assign_setting_db:
  "assign_setting t r k v s = (res, s') \<Longrightarrow> db s' = db s \<and> cogs s' = cogs s"
  by (auto simp: assign_setting_def pbind_def row_getitem_def hash_key_def getitem_def
      deepcopy_def store_item_def split: option.splits sum.splits)

lemma assign_items_db:
  "assign_items t r items s = (res, s') \<Longrightarrow> db s' = db s \<and> cogs s' = cogs s"
proof (induction items arbitrary: s)
  case Nil
  then show ?case by auto
next
  case (Cons a items)
  obtain k v where a: "a = (k, v)" by (cases a)
  obtain r1 s1 where 1: "assign_setting t r k v s = (r1, s1)" by (cases "assign_setting t r k v s")
  from assign_setting_db [OF 1] Cons.IH [of s1] Cons.prems a 1 show ?case
    by (cases r1) auto
qed

lemma hydrate_rows_db:
  "hydrate_rows t rows s = (res, s') \<Longrightarrow> db s' = db s \<and> cogs s' = cogs s"
proof (induction rows arbitrary: s)
  case Nil
  then show ?case by auto
next
  case (Cons r rows)
  obtain r1 s1 where 1: "assign_items t r r s = (r1, s1)" by (cases "assign_items t r r s")
  from assign_items_db [OF 1] Cons.IH [of s1] Cons.prems 1 show ?case
    by (cases r1) auto
qed

text \<open>What the bulk queries of a successful run return, and the keys the cache ends with.\<close>

lemma startup_keys:
  assumes "startup s = (Return (), s')"
  shows "dom (settings_cache s' t) = {i. Some i \<in> row_key t ` set (rows_with_sentinel t (db s))}"
proof -
  from assms obtain sa sb sc sd se sf sg sh where
    ca: "settings_cache sa = (\<lambda>t. Map.empty)" and dba: "db sa = db s"
    and 1: "get_connection sa = (Return (), sb)"
    and 2: "get_default_settings Guild sb = (Return (), sc)"
    and 3: "get_settings Guild sc = (Return (), sd)"
    and 4: "get_default_settings User sd = (Return (), se)"
    and 5: "get_settings User se = (Return (), sf)"
    and 6: "run_cache_setup (cogs sf) sf = (Return (), sg)"
    and 7: "wait_until_ready (sg\<lparr>trace := trace sg @
           [Log DEBUG ''Waiting until ready before completing startup method.'']\<rparr>) = (Return (), sh)"
    and 8: "disconnect sh = (Return (), s')"
    by (rule startup_ReturnE)
  from get_connection_store [OF 1] ca dba
  have cb: "settings_cache sb = (\<lambda>t. Map.empty)" and tb: "tables (db sb) = tables (db s)"
    and db: "column_defaults (db sb) = column_defaults (db s)"
    by (simp_all add: same_store_def same_tables_def)
  from get_default_settings_Return [OF 2] obtain sb1 where
    "same_store sb sb1" and "sc = setdefault_items Guild (sentinel_row Guild (db sb)) sb1"
    and tc0: "tables (db sc) = (tables (db sb))(Guild := rows_with_sentinel Guild (db sb))"
    and dc: "column_defaults (db sc) = column_defaults (db sb)"
    by blast
  then have cc: "settings_cache sc = (\<lambda>t. Map.empty)"
    using cb by (simp add: same_store_def)
  have tc: "tables (db sc) Guild = rows_with_sentinel Guild (db s)"
    and tcu: "tables (db sc) User = tables (db s) User"
    using tc0 tb db same_tables_rows_with_sentinel(1) [of sb Guild s] by simp_all
  from get_settings_Return [OF 3] obtain sc1 where
    s31: "same_store sc sc1" and t31: "same_tables sc sc1"
    and h3: "hydrate_rows Guild (tables (db sc) Guild) sc1 = (Return (), sd)"
    by blast
  have c31: "settings_cache sc1 = (\<lambda>t. Map.empty)"
    using s31 cc by (simp add: same_store_def)
  have kd: "dom (settings_cache sd t') =
      (if t' = Guild then {i. Some i \<in> row_key Guild ` set (rows_with_sentinel Guild (db s))} else {})" for t'
    using hydrate_rows_keys [OF h3, of t'] c31 tc by simp
  have dbd: "db sd = db sc1"
    using hydrate_rows_db [OF h3] by simp
  with t31 tcu dc db have tdu: "tables (db sd) User = tables (db s) User"
    and dd: "column_defaults (db sd) = column_defaults (db s)"
    by (simp_all add: same_tables_def)
  from get_default_settings_Return [OF 4] obtain sd1 where
    s41: "same_store sd sd1" and se: "se = setdefault_items User (sentinel_row User (db sd)) sd1"
    and te0: "tables (db se) = (tables (db sd))(User := rows_with_sentinel User (db sd))"
    by blast
  have ce: "settings_cache se = settings_cache sd"
    using s41 se by (simp add: same_store_def)
  have te: "tables (db se) User = rows_with_sentinel User (db s)"
    using te0 same_tables_rows_with_sentinel(1) [OF tdu dd] by simp
  from get_settings_Return [OF 5] obtain se1 where
    s51: "same_store se se1" and h5: "hydrate_rows User (tables (db se) User) se1 = (Return (), sf)"
    by blast
  have kf: "dom (settings_cache sf t') =
      dom (settings_cache sd t') \<union>
      (if t' = User then {i. Some i \<in> row_key User ` set (rows_with_sentinel User (db s))} else {})" for t'
    using hydrate_rows_keys [OF h5, of t'] s51 ce te by (simp add: same_store_def)
  have "same_store sf s'"
    using run_cache_setup_store [OF 6] wait_until_ready_store [OF 7] disconnect_store [OF 8]
    by (simp add: same_store_def)
  then have "settings_cache s' = settings_cache sf"
    by (simp add: same_store_def)
  with kf [of t] kd [of t] show ?thesis
    by (cases t) simp_all
qed

lemma startup_guild_view:
  assumes "separate s" and "startup s = (Return (), s')"
  shows "\<exists>s1 s2. separate s1 \<and> entry s1 = (\<lambda>t i. None)
     \<and> default_of s1 Guild = merged (default_of s Guild) (sentinel_row Guild (db s))
     \<and> hydrate_rows Guild (rows_with_sentinel Guild (db s)) s1 = (Return (), s2)
     \<and> entry s' Guild = entry s2 Guild \<and> default_of s' Guild = default_of s1 Guild \<and> separate s'"
proof -
  from assms(2) obtain sa sb sc sd se sf sg sh where
    ca: "settings_cache sa = (\<lambda>t. Map.empty)" and ha: "heap sa = heap s"
    and da: "DEFAULT_SETTINGS sa = DEFAULT_SETTINGS s" and na: "next_ref sa = next_ref s"
    and dba: "db sa = db s"
    and 1: "get_connection sa = (Return (), sb)"
    and 2: "get_default_settings Guild sb = (Return (), sc)"
    and 3: "get_settings Guild sc = (Return (), sd)"
    and 4: "get_default_settings User sd = (Return (), se)"
    and 5: "get_settings User se = (Return (), sf)"
    and 6: "run_cache_setup (cogs sf) sf = (Return (), sg)"
    and 7: "wait_until_ready (sg\<lparr>trace := trace sg @
           [Log DEBUG ''Waiting until ready before completing startup method.'']\<rparr>) = (Return (), sh)"
    and 8: "disconnect sh = (Return (), s')"
    by (rule startup_ReturnE)
  have sepa: "separate sa"
    using assms(1) by (simp add: separate_def ca da na)
  have ea: "entry sa = (\<lambda>t i. None)"
    by (intro ext) (simp add: entry_def ca)
  have dfa: "default_of sa = default_of s"
    by (intro ext) (simp add: default_of_def ha da)
  note b = get_connection_store [OF 1]
  from b same_store_view [of sa sb] sepa ea dfa
  have sepb: "separate sb" and eb: "entry sb = (\<lambda>t i. None)" and dfb: "default_of sb = default_of s"
    by simp_all
  from b dba have tb: "tables (db sb) = tables (db s)"
    and cdb: "column_defaults (db sb) = column_defaults (db s)"
    by (simp_all add: same_tables_def)
  from get_default_settings_Return [OF 2] obtain sb1 where
    sb1: "same_store sb sb1" and sc: "sc = setdefault_items Guild (sentinel_row Guild (db sb)) sb1"
    and tc0: "tables (db sc) = (tables (db sb))(Guild := rows_with_sentinel Guild (db sb))"
    by blast
  have srow: "sentinel_row Guild (db sb) = sentinel_row Guild (db s)"
    and rws: "rows_with_sentinel Guild (db sb) = rows_with_sentinel Guild (db s)"
    using same_tables_rows_with_sentinel [of sb Guild s] tb cdb by simp_all
  from same_store_view [OF sb1] sepb eb dfb
  have sepb1: "separate sb1" and eb1: "entry sb1 = (\<lambda>t i. None)" and dfb1: "default_of sb1 = default_of s"
    by simp_all
  from setdefault_items_view [OF sepb1, of Guild "sentinel_row Guild (db s)"] sc srow eb1 dfb1
  have sepc: "separate sc" and ec: "entry sc = (\<lambda>t i. None)"
    and dfc: "default_of sc Guild = merged (default_of s Guild) (sentinel_row Guild (db s))"
    by simp_all
  from get_settings_Return [OF 3] obtain sc1 where
    sc1: "same_store sc sc1"
    and h3: "hydrate_rows Guild (tables (db sc) Guild) sc1 = (Return (), sd)"
    by blast
  from same_store_view [OF sc1] sepc ec dfc
  have sepc1: "separate sc1" and ec1: "entry sc1 = (\<lambda>t i. None)"
    and dfc1: "default_of sc1 Guild = merged (default_of s Guild) (sentinel_row Guild (db s))"
    by simp_all
  have h3': "hydrate_rows Guild (rows_with_sentinel Guild (db s)) sc1 = (Return (), sd)"
    using h3 tc0 rws by simp
  from hydrate_rows_left_alone [OF sepc1 h3]
  have sepd: "separate sd" and dfd: "default_of sd = default_of sc1"
    by (simp_all add: left_alone_def kept_def)
  from get_default_settings_Return [OF 4] obtain sd1 where
    sd1: "same_store sd sd1" and se: "se = setdefault_items User (sentinel_row User (db sd)) sd1"
    by blast
  from same_store_view [OF sd1] sepd dfd
  have sepd1: "separate sd1" and ed1: "entry sd1 = entry sd" and dfd1: "default_of sd1 = default_of sc1"
    by simp_all
  from setdefault_items_view [OF sepd1, of User "sentinel_row User (db sd)"] se ed1 dfd1
  have sepe: "separate se" and ee: "entry se = entry sd"
    and dfe: "default_of se Guild = default_of sc1 Guild"
    by simp_all
  from get_settings_Return [OF 5] obtain se1 where
    se1: "same_store se se1"
    and h5: "hydrate_rows User (tables (db se) User) se1 = (Return (), sf)"
    by blast
  from same_store_view [OF se1] sepe ee dfe
  have sepe1: "separate se1" and ee1: "entry se1 = entry sd" and dfe1: "default_of se1 Guild = default_of sc1 Guild"
    by simp_all
  from hydrate_rows_left_alone [OF sepe1 h5] ee1 dfe1
  have sepf: "separate sf" and ef: "entry sf Guild = entry sd Guild"
    and dff: "default_of sf Guild = default_of sc1 Guild"
    by (auto simp: left_alone_def kept_def fun_eq_iff)
  have "same_store sf s'"
    using run_cache_setup_store [OF 6] wait_until_ready_store [OF 7] disconnect_store [OF 8]
    by (simp add: same_store_def)
  from same_store_view [OF this] sepf ef dff
  have "separate s'" and "entry s' Guild = entry sd Guild" and "default_of s' Guild = default_of sc1 Guild"
    by simp_all
  with sepc1 ec1 dfc1 h3' show ?thesis by blast
qed

lemma getitem_val_materialises:
  assumes "separate s" and "settings_cache s t (KInt i) = None"
  shows "getitem_val t (VInt i) s =
     (Return (next_ref s),
      s\<lparr>heap := (heap s)(next_ref s := heap s (DEFAULT_SETTINGS s t)),
        next_ref := Suc (next_ref s),
        settings_cache := (settings_cache s)(t := (settings_cache s t)(KInt i \<mapsto> next_ref s))\<rparr>)"
  using assms(2) by (simp add: getitem_val_def pbind_Return [OF hash_key_VInt] getitem_missing)

lemma entry_None: "entry s t i = None \<longleftrightarrow> settings_cache s t i = None"
  by (simp add: entry_def)

lemma guild_scenario:
  assumes "separate s" and "default_of s Guild ''prefix'' = Some p"
    and "tables (db s) Guild =
           [[(''guild_id'', VInt 0), (''prefix'', VStr ''!'')],
            [(''guild_id'', VInt 42), (''prefix'', VStr ''?'')]]"
    and "startup s = (Return (), s')"
  shows "default_of s' Guild ''prefix'' = Some p"
    and "\<exists>d. entry s' Guild (KInt 42) = Some d \<and> d ''prefix'' = Some (VStr ''?'')"
    and "\<exists>d. entry s' Guild (KInt 0) = Some d \<and> d ''prefix'' = Some (VStr ''!'')"
    and "settings_cache s' Guild (KInt 99) = None"
    and "separate s'"
proof -
  let ?r0 = "[(''guild_id'', VInt 0), (''prefix'', VStr ''!'')]"
  let ?r42 = "[(''guild_id'', VInt 42), (''prefix'', VStr ''?'')]"
  have k0: "row_key Guild ?r0 = Some (KInt 0)" and k42: "row_key Guild ?r42 = Some (KInt 42)"
    by (simp_all add: row_key_def)
  have sr: "sentinel_rows Guild (db s) = [?r0]"
    using assms(3) by (simp add: sentinel_rows_def)
  then have rows: "rows_with_sentinel Guild (db s) = [?r0, ?r42]"
    using assms(3) by (simp add: rows_with_sentinel_def)
  from startup_guild_view [OF assms(1,4)] rows obtain s1 s2 where
    sep1: "separate s1" and e1: "entry s1 = (\<lambda>t i. None)"
    and d1: "default_of s1 Guild = merged (default_of s Guild) (sentinel_row Guild (db s))"
    and h: "hydrate_rows Guild [?r0, ?r42] s1 = (Return (), s2)"
    and e': "entry s' Guild = entry s2 Guild" and d': "default_of s' Guild = default_of s1 Guild"
    and sep': "separate s'"
    by auto
  show "default_of s' Guild ''prefix'' = Some p"
    using d' d1 assms(2) by (simp add: merged_def)
  have wf: "\<forall>r\<in>set [?r0, ?r42]. row_key Guild r \<noteq> None"
    using k0 k42 by simp
  have dist: "distinct (map (row_key Guild) [?r0, ?r42])"
    using k0 k42 by simp
  from hydrate_rows_entries [OF sep1 wf dist] h
  have other: "\<forall>t' i. (t' \<noteq> Guild \<or> Some i \<notin> row_key Guild ` set [?r0, ?r42]) \<longrightarrow> entry s2 t' i = entry s1 t' i"
    and mine: "\<forall>r\<in>set [?r0, ?r42]. \<forall>i. row_key Guild r = Some i \<longrightarrow>
            entry s2 Guild i = Some (update_items r (settings_of s1 Guild i))"
    by auto
  from mine k42 have "entry s2 Guild (KInt 42) = Some (update_items ?r42 (settings_of s1 Guild (KInt 42)))"
    by simp
  then show "\<exists>d. entry s' Guild (KInt 42) = Some d \<and> d ''prefix'' = Some (VStr ''?'')"
    using e' by (simp add: update_items_def)
  from mine k0 have "entry s2 Guild (KInt 0) = Some (update_items ?r0 (settings_of s1 Guild (KInt 0)))"
    by simp
  then show "\<exists>d. entry s' Guild (KInt 0) = Some d \<and> d ''prefix'' = Some (VStr ''!'')"
    using e' by (simp add: update_items_def)
  from other k0 k42 have "entry s2 Guild (KInt 99) = entry s1 Guild (KInt 99)"
    by simp
  with e1 e' show "settings_cache s' Guild (KInt 99) = None"
    by (simp add: entry_None [symmetric])
  show "separate s'" by (rule sep')
qed

section \<open>Construction, and the example runs\<close>

lemma init_Return:
  assumes "init cf fs d rd = (Return (), s)"
  obtains c p where "fs cf = Inr c" and "c ''default_prefix'' = Some p"
    and "s = \<lparr>config = Some c, config_file = cf,
       DEFAULT_SETTINGS = (\<lambda>_. 0)(Guild := 0, User := 1),
       settings_cache = (\<lambda>_. Map.empty), cogs = [],
       heap = (\<lambda>_. Map.empty)(0 := [''prefix'' \<mapsto> p], 1 := Map.empty),
       next_ref = 2, files = fs, db = d, ready = rd,
       trace = [Log INFO ''Reloading config'', LoadToml cf None]\<rparr>"
  using assms
  by (auto simp: init_def reload_config_def prog_defs load_toml_def set_config_def blank_def
      config_getitem_def new_dict_def set_DEFAULT_SETTINGS_def numeral_2_eq_2
      split: sum.splits option.splits)

lemma init_state:
  assumes "init cf fs d rd = (Return (), s)" and "fs cf = Inr c" and "c ''default_prefix'' = Some p"
  shows "separate (s\<lparr>cogs := cs\<rparr>)" and "default_of (s\<lparr>cogs := cs\<rparr>) Guild = [''prefix'' \<mapsto> p]"
    and "default_of (s\<lparr>cogs := cs\<rparr>) User = Map.empty"
    and "db (s\<lparr>cogs := cs\<rparr>) = d" and "settings_cache (s\<lparr>cogs := cs\<rparr>) = (\<lambda>t. Map.empty)"
proof -
  from assms(1) obtain c' p' where "fs cf = Inr c'" and "c' ''default_prefix'' = Some p'"
    and s: "s = \<lparr>config = Some c', config_file = cf,
       DEFAULT_SETTINGS = (\<lambda>_. 0)(Guild := 0, User := 1),
       settings_cache = (\<lambda>_. Map.empty), cogs = [],
       heap = (\<lambda>_. Map.empty)(0 := [''prefix'' \<mapsto> p'], 1 := Map.empty),
       next_ref = 2, files = fs, db = d, ready = rd,
       trace = [Log INFO ''Reloading config'', LoadToml cf None]\<rparr>"
    by (rule init_Return)
  with assms(2,3) have p: "p' = p" by simp
  show "separate (s\<lparr>cogs := cs\<rparr>)"
    by (simp add: s separate_def)
  show "default_of (s\<lparr>cogs := cs\<rparr>) Guild = [''prefix'' \<mapsto> p]"
    by (simp add: s p default_of_def)
  show "default_of (s\<lparr>cogs := cs\<rparr>) User = Map.empty"
    by (simp add: s default_of_def)
  show "db (s\<lparr>cogs := cs\<rparr>) = d" by (simp add: s)
  show "settings_cache (s\<lparr>cogs := cs\<rparr>) = (\<lambda>t. Map.empty)" by (simp add: s)
qed

lemma example_state_eq:
  "example_state =
      \<lparr>config = Some example_config, config_file = ''config/config.toml'',
       DEFAULT_SETTINGS = (\<lambda>_. 0)(Guild := 0, User := 1),
       settings_cache = (\<lambda>_. Map.empty), cogs = example_cogs,
       heap = (\<lambda>_. Map.empty)(0 := [''prefix'' \<mapsto> VStr ''$''], 1 := Map.empty),
       next_ref = 2, files = example_files, db = example_db, ready = True,
       trace = [Log INFO ''Reloading config'', LoadToml ''config/config.toml'' None]\<rparr>"
  by (simp add: example_state_def init_example)

lemmas startup_defs =
  startup_def startup_impl_def clear_def get_connection_def take_fault_def
  get_default_settings_def get_settings_def db_call_def db_exec_def sentinel_rows_def first_row_def
  setdefault_def get_all_table_data_def run_sql_exit_on_error_def assign_setting_def
  row_getitem_def hash_key_def getitem_def deepcopy_def store_item_def call_cache_setup_def
  wait_until_ready_def disconnect_def Let_def

lemma example_startup_returns: "fst (startup example_state) = Return ()"
  by (simp add: example_state_eq prog_defs startup_defs example_db_def example_cogs_def)

lemma failing_startup_exits: "fst (startup failing_state) = Exit 1"
  by (simp add: failing_state_def example_state_eq prog_defs startup_defs example_db_def example_cogs_def)

lemma failing_startup_trace:
  "trace (snd (startup failing_state)) =
     [Log INFO ''Reloading config'', LoadToml ''config/config.toml'' None,
      Log DEBUG ''Clearing caches'', ClearCache Guild, ClearCache User, GetConnection None,
      Sql (SelectSentinel Guild) (Some (PostgresError ''connection lost'')),
      Log ERROR ''connection lost'']"
  by (simp add: failing_state_def example_state_eq prog_defs startup_defs example_db_def example_cogs_def)

lemma failing_startup_connections:
  "open_connections (db (snd (startup failing_state))) = 1"
  by (simp add: failing_state_def example_state_eq prog_defs startup_defs example_db_def example_cogs_def)

lemma example_separate: "separate example_state"
proof -
  have i: "init ''config/config.toml'' example_files example_db True =
      (Return (), snd (init ''config/config.toml'' example_files example_db True))"
    by (simp add: init_example)
  have f: "example_files ''config/config.toml'' = Inr example_config"
    by (simp add: example_files_def)
  have p: "example_config ''default_prefix'' = Some (VStr ''$'')"
    by (simp add: example_config_def)
  show ?thesis
    unfolding example_state_def by (rule init_state(1) [OF i f p])
qed

lemma example_startup_eq: "startup example_state = (Return (), snd (startup example_state))"
  using example_startup_returns by (cases "startup example_state") simp

section \<open>Hydration of the entities\<close>

text \<open>
  Claim C3. Hydrating a list of rows of a table (each with a hashable key and distinct
  column names, no two rows with the same key, as the rows of a table with a primary key
  are) returns, leaves the defaults alone, and gives every row's entity an entry that
  maps each column of the row to the row's value; every other key of the entry holds
  what a read of the entity gave before the hydration: the default when the entity had no
  entry, its old value otherwise.
\<close>

theorem hydrate_rows_overwrites_row_keys_only:
  assumes "separate s"
    and "\<forall>r\<in>set rows. row_key t r \<noteq> None \<and> distinct (map fst r)"
    and "distinct (map (row_key t) rows)"
  shows "\<exists>s'. hydrate_rows t rows s = (Return (), s') \<and> default_of s' = default_of s
     \<and> (\<forall>r\<in>set rows. \<exists>i d. row_key t r = Some i \<and> entry s' t i = Some d
           \<and> (\<forall>(c, v)\<in>set r. d c = Some v)
           \<and> (\<forall>c. c \<notin> fst ` set r \<longrightarrow> d c = settings_of s t i c))"
proof -
  from assms(2) have wf: "\<forall>r\<in>set rows. row_key t r \<noteq> None" by blast
  from hydrate_rows_entries [OF assms(1) wf assms(3)]
  obtain s' where run: "hydrate_rows t rows s = (Return (), s')" and k: "kept s s'"
    and mine: "\<forall>r\<in>set rows. \<forall>i. row_key t r = Some i \<longrightarrow>
            entry s' t i = Some (update_items r (settings_of s t i))"
    by blast
  have "\<exists>i d. row_key t r = Some i \<and> entry s' t i = Some d
           \<and> (\<forall>(c, v)\<in>set r. d c = Some v)
           \<and> (\<forall>c. c \<notin> fst ` set r \<longrightarrow> d c = settings_of s t i c)"
    if r: "r \<in> set rows" for r
  proof -
    from assms(2) r obtain i where i: "row_key t r = Some i" and d: "distinct (map fst r)"
      by auto
    from mine r i have e: "entry s' t i = Some (update_items r (settings_of s t i))"
      by blast
    have "\<forall>(c, v)\<in>set r. update_items r (settings_of s t i) c = Some v"
      using update_items_member [OF d] by auto
    moreover have "\<forall>c. c \<notin> fst ` set r \<longrightarrow> update_items r (settings_of s t i) c = settings_of s t i c"
      using update_items_other by blast
    ultimately show ?thesis using i e by blast
  qed
  with run k show ?thesis
    unfolding kept_def by blast
qed

theorem hydrate_rows_witness:
  "separate example_state
   \<and> (\<exists>s'. hydrate_rows Guild [[(''guild_id'', VInt 42), (''language'', VStr ''en'')]] example_state
              = (Return (), s')
        \<and> default_of s' Guild ''prefix'' = Some (VStr ''$'')
        \<and> (\<exists>d. entry s' Guild (KInt 42) = Some d \<and> d ''guild_id'' = Some (VInt 42)
              \<and> d ''language'' = Some (VStr ''en'') \<and> d ''prefix'' = Some (VStr ''$'')))"
proof -
  let ?r = "[(''guild_id'', VInt 42), (''language'', VStr ''en'')]"
  note sep = example_separate
  have k: "row_key Guild ?r = Some (KInt 42)"
    by (simp add: row_key_def)
  have wf: "\<forall>r\<in>set [?r]. row_key Guild r \<noteq> None \<and> distinct (map fst r)"
    using k by simp
  have dist: "distinct (map (row_key Guild) [?r])"
    by simp
  have dflt: "default_of example_state Guild = [''prefix'' \<mapsto> VStr ''$'']"
    by (simp add: example_state_eq default_of_def)
  have none: "entry example_state Guild (KInt 42) = None"
    by (simp add: example_state_eq entry_def)
  from hydrate_rows_overwrites_row_keys_only [OF sep wf dist]
  obtain s' i d where run: "hydrate_rows Guild [?r] example_state = (Return (), s')"
    and d': "default_of s' = default_of example_state"
    and i: "row_key Guild ?r = Some i" and e: "entry s' Guild i = Some d"
    and cols: "\<forall>(c, v)\<in>set ?r. d c = Some v"
    and rest: "\<forall>c. c \<notin> fst ` set ?r \<longrightarrow> d c = settings_of example_state Guild i c"
    by auto
  from i k have i42: "i = KInt 42" by simp
  from cols have "d ''guild_id'' = Some (VInt 42)" and "d ''language'' = Some (VStr ''en'')"
    by simp_all
  moreover from rest have "d ''prefix'' = Some (VStr ''$'')"
    by (simp add: i42 settings_of_def none dflt)
  moreover have "default_of s' Guild ''prefix'' = Some (VStr ''$'')"
    by (simp add: d' dflt)
  ultimately show ?thesis
    using sep run e i42 by blast
qed

section \<open>The sentinel row\<close>

text \<open>
  Claim C5, as the code has it. After a successful \<open>startup\<close> entity ID 0 is a key of
  each cache: the sentinel row is used to define the defaults and is not left out of the
  bulk query, which is \<open>SELECT * FROM table\<close>, so it is hydrated like any other row.
\<close>

theorem startup_caches_the_sentinel_row:
  assumes "startup s = (Return (), s')"
  shows "KInt 0 \<in> dom (settings_cache s' t)"
proof -
  have keys: "dom (settings_cache s' t) = {i. Some i \<in> row_key t ` set (rows_with_sentinel t (db s))}"
    using assms by (rule startup_keys)
  from sentinel_in_rows [of t "db s"] obtain r where "r \<in> set (rows_with_sentinel t (db s))"
    and "row_key t r = Some (KInt 0)" by blast
  then have "Some (KInt 0) \<in> row_key t ` set (rows_with_sentinel t (db s))"
    by force
  with keys show ?thesis by simp
qed

theorem startup_sentinel_witness:
  "fst (startup example_state) = Return ()
   \<and> KInt 0 \<in> dom (guild_settings (snd (startup example_state)))
   \<and> KInt 0 \<in> dom (user_settings (snd (startup example_state)))"
proof -
  from startup_caches_the_sentinel_row [OF example_startup_eq, of Guild]
  have g: "KInt 0 \<in> dom (guild_settings (snd (startup example_state)))" .
  from startup_caches_the_sentinel_row [OF example_startup_eq, of User]
  have u: "KInt 0 \<in> dom (user_settings (snd (startup example_state)))" .
  from example_startup_returns g u show ?thesis by blast
qed

text \<open>
  The claim as stated fails: with the sentinel row and one guild row in
  \<open>guild_settings\<close>, a successful \<open>startup\<close> leaves ID 0 in the guild cache.
\<close>

theorem sentinel_id_cached_counterexample:
  "fst (startup example_state) = Return ()
   \<and> tables (db example_state) Guild =
        [[(''guild_id'', VInt 0), (''prefix'', VStr ''!'')],
         [(''guild_id'', VInt 42), (''prefix'', VStr ''?'')]]
   \<and> guild_settings (snd (startup example_state)) (KInt 0) \<noteq> None"
proof -
  have "dom (guild_settings (snd (startup example_state))) =
      {i. Some i \<in> row_key Guild ` set (rows_with_sentinel Guild (db example_state))}"
    using example_startup_eq by (rule startup_keys)
  moreover have "Some (KInt 0) \<in> row_key Guild ` set (rows_with_sentinel Guild (db example_state))"
    using sentinel_in_rows [of Guild "db example_state"] by force
  ultimately have "KInt 0 \<in> dom (guild_settings (snd (startup example_state)))"
    by simp
  moreover have "tables (db example_state) Guild =
        [[(''guild_id'', VInt 0), (''prefix'', VStr ''!'')],
         [(''guild_id'', VInt 42), (''prefix'', VStr ''?'')]]"
    by (simp add: example_state_eq example_db_def)
  ultimately show ?thesis
    using example_startup_returns by auto
qed

section \<open>The scenario of two guild rows\<close>

text \<open>
  Claim C6, as the code has it. The bot is constructed from a configuration whose
  \<open>default_prefix\<close> is \<open>p\<close>, \<open>guild_settings\<close> holds exactly the sentinel row with prefix
  \<open>!\<close> and the row of guild 42 with prefix \<open>?\<close>, and \<open>startup\<close> succeeds. Then the
  default guild prefix is \<open>p\<close> (seeded at construction and kept by \<open>setdefault\<close>), the
  entry of guild 42 has prefix \<open>?\<close>, and guild 99, which has no entry, is given one on
  its first read, with prefix \<open>p\<close>.
\<close>

theorem scenario_prefixes:
  assumes "init cf fs d rd = (Return (), s0)"
    and "fs cf = Inr c" and "c ''default_prefix'' = Some p"
    and "tables d Guild =
           [[(''guild_id'', VInt 0), (''prefix'', VStr ''!'')],
            [(''guild_id'', VInt 42), (''prefix'', VStr ''?'')]]"
    and "startup (s0\<lparr>cogs := cs\<rparr>) = (Return (), s1)"
  shows "default_of s1 Guild ''prefix'' = Some p
     \<and> (\<exists>d42. entry s1 Guild (KInt 42) = Some d42 \<and> d42 ''prefix'' = Some (VStr ''?''))
     \<and> guild_settings s1 (KInt 99) = None
     \<and> (\<exists>obj s2. getitem_val Guild (VInt 99) s1 = (Return obj, s2)
           \<and> heap s2 obj ''prefix'' = Some p \<and> guild_settings s2 (KInt 99) = Some obj)"
proof -
  note st = init_state [OF assms(1-3), of cs]
  have dp: "default_of (s0\<lparr>cogs := cs\<rparr>) Guild ''prefix'' = Some p"
    by (simp add: st(2))
  have tb: "tables (db (s0\<lparr>cogs := cs\<rparr>)) Guild =
           [[(''guild_id'', VInt 0), (''prefix'', VStr ''!'')],
            [(''guild_id'', VInt 42), (''prefix'', VStr ''?'')]]"
    using assms(4) st(4) by simp
  note sc = guild_scenario [OF st(1) dp tb assms(5)]
  from getitem_val_materialises [OF sc(5) sc(4)] sc(1)
  have "\<exists>obj s2. getitem_val Guild (VInt 99) s1 = (Return obj, s2)
           \<and> heap s2 obj ''prefix'' = Some p \<and> guild_settings s2 (KInt 99) = Some obj"
    by (simp add: default_of_def)
  with sc(1,2,4) show ?thesis by blast
qed

theorem scenario_witness:
  "fst (startup example_state) = Return ()
   \<and> default_of (snd (startup example_state)) Guild ''prefix'' = Some (VStr ''$'')
   \<and> (\<exists>d42. entry (snd (startup example_state)) Guild (KInt 42) = Some d42
         \<and> d42 ''prefix'' = Some (VStr ''?''))
   \<and> (\<exists>obj s2. getitem_val Guild (VInt 99) (snd (startup example_state)) = (Return obj, s2)
         \<and> heap s2 obj ''prefix'' = Some (VStr ''$''))"
proof -
  have i: "init ''config/config.toml'' example_files example_db True =
      (Return (), snd (init ''config/config.toml'' example_files example_db True))"
    by (simp add: init_example)
  have f: "example_files ''config/config.toml'' = Inr example_config"
    by (simp add: example_files_def)
  have p: "example_config ''default_prefix'' = Some (VStr ''$'')"
    by (simp add: example_config_def)
  have t: "tables example_db Guild =
           [[(''guild_id'', VInt 0), (''prefix'', VStr ''!'')],
            [(''guild_id'', VInt 42), (''prefix'', VStr ''?'')]]"
    by (simp add: example_db_def)
  have r: "startup ((snd (init ''config/config.toml'' example_files example_db True))\<lparr>cogs := example_cogs\<rparr>)
      = (Return (), snd (startup example_state))"
    using example_startup_eq by (simp add: example_state_def)
  from scenario_prefixes [OF i f p t r] example_startup_returns show ?thesis
    by blast
qed

text \<open>
  The claim as stated fails: with \<open>default_prefix = "$"\<close> in the configuration, the
  default guild prefix after hydration is \<open>$\<close>, not the sentinel row's \<open>!\<close>.
\<close>

theorem scenario_default_prefix_counterexample:
  "fst (startup example_state) = Return ()
   \<and> tables (db example_state) Guild =
        [[(''guild_id'', VInt 0), (''prefix'', VStr ''!'')],
         [(''guild_id'', VInt 42), (''prefix'', VStr ''?'')]]
   \<and> default_of (snd (startup example_state)) Guild ''prefix'' = Some (VStr ''$'')
   \<and> default_of (snd (startup example_state)) Guild ''prefix'' \<noteq> Some (VStr ''!'')"
proof -
  note sep = example_separate
  have dp: "default_of example_state Guild ''prefix'' = Some (VStr ''$'')"
    by (simp add: example_state_eq default_of_def)
  have tb: "tables (db example_state) Guild =
        [[(''guild_id'', VInt 0), (''prefix'', VStr ''!'')],
         [(''guild_id'', VInt 42), (''prefix'', VStr ''?'')]]"
    by (simp add: example_state_eq example_db_def)
  from guild_scenario(1) [OF sep dp tb example_startup_eq] tb example_startup_returns
  show ?thesis by simp
qed

section \<open>Witnesses for the cache operations\<close>

theorem getitem_witness:
  "separate example_state \<and> guild_settings example_state (KInt 99) = None
   \<and> (\<exists>obj s'. getitem_val Guild (VInt 99) example_state = (Return obj, s')
         \<and> heap s' obj = heap example_state (DEFAULT_GUILD_SETTINGS example_state)
         \<and> guild_settings s' (KInt 99) = Some obj
         \<and> getitem_val Guild (VInt 99) s' = (Return obj, s'))"
proof -
  have none: "guild_settings example_state (KInt 99) = None"
    by (simp add: example_state_eq)
  from getitem_materialises_once [OF example_separate none]
  obtain obj s' where "getitem_val Guild (VInt 99) example_state = (Return obj, s')"
    and "heap s' obj = heap example_state (DEFAULT_GUILD_SETTINGS example_state)"
    and "settings_cache s' =
           (settings_cache example_state)(Guild := (guild_settings example_state)(KInt 99 \<mapsto> obj))"
    and "getitem_val Guild (VInt 99) s' = (Return obj, s')"
    by blast
  moreover from this(3) have "guild_settings s' (KInt 99) = Some obj"
    by simp
  ultimately show ?thesis
    using example_separate none by blast
qed

theorem setdefault_items_witness:
  "heap (setdefault_items Guild [(''guild_id'', VInt 0), (''prefix'', VStr ''!'')] example_state)
      (DEFAULT_GUILD_SETTINGS
         (setdefault_items Guild [(''guild_id'', VInt 0), (''prefix'', VStr ''!'')] example_state))
      ''prefix'' = Some (VStr ''$'')
   \<and> heap (setdefault_items Guild [(''guild_id'', VInt 0), (''prefix'', VStr ''!'')] example_state)
      (DEFAULT_GUILD_SETTINGS
         (setdefault_items Guild [(''guild_id'', VInt 0), (''prefix'', VStr ''!'')] example_state))
      ''guild_id'' = Some (VInt 0)"
proof -
  let ?r = "[(''guild_id'', VInt 0), (''prefix'', VStr ''!'')]"
  have d: "distinct (map fst ?r)" by simp
  have m1: "(''prefix'', VStr ''!'') \<in> set ?r" and m2: "(''guild_id'', VInt 0) \<in> set ?r"
    by simp_all
  have h: "heap example_state (DEFAULT_GUILD_SETTINGS example_state) = [''prefix'' \<mapsto> VStr ''$'']"
    by (simp add: example_state_eq)
  from setdefault_items_keeps_existing [OF d m1, of Guild example_state]
    setdefault_items_keeps_existing [OF d m2, of Guild example_state]
  show ?thesis
    by (simp add: h)
qed

section \<open>What a run adds to the trace\<close>

lemma emitsI:
  assumes "\<And>s. \<exists>es. trace (snd (m s)) = trace s @ es \<and> Q (fst (m s)) es"
  shows "emits m Q"
  using assms by (simp add: emits_def)

lemma emitsD:
  assumes "emits m Q"
  obtains es where "trace (snd (m s)) = trace s @ es" and "Q (fst (m s)) es"
  using assms unfolding emits_def by blast

lemma emits_weaken:
  assumes "emits m Q" and "\<And>r es. Q r es \<Longrightarrow> Q' r es"
  shows "emits m Q'"
  using assms unfolding emits_def by blast

lemma emits_pbind:
  assumes m: "emits m Q1" and f: "\<And>x. emits (f x) Q2"
    and ret: "\<And>x es1 r es2. Q1 (Return x) es1 \<Longrightarrow> Q2 r es2 \<Longrightarrow> Q r (es1 @ es2)"
    and rais: "\<And>e es. Q1 (Raise e) es \<Longrightarrow> Q (Raise e) es"
    and ex: "\<And>c es. Q1 (Exit c) es \<Longrightarrow> Q (Exit c) es"
    and bl: "\<And>es. Q1 Blocked es \<Longrightarrow> Q Blocked es"
  shows "emits (pbind m f) Q"
proof (rule emitsI)
  fix s
  from m obtain es1 where t1: "trace (snd (m s)) = trace s @ es1" and q1: "Q1 (fst (m s)) es1"
    by (rule emitsD)
  obtain r1 s1 where ms: "m s = (r1, s1)" by (cases "m s")
  show "\<exists>es. trace (snd (pbind m f s)) = trace s @ es \<and> Q (fst (pbind m f s)) es"
  proof (cases r1)
    case (Return x)
    from f [of x] obtain es2 where t2: "trace (snd (f x s1)) = trace s1 @ es2"
      and q2: "Q2 (fst (f x s1)) es2"
      by (rule emitsD)
    have "pbind m f s = f x s1"
      using ms Return by (simp add: pbind_def)
    moreover have "Q (fst (f x s1)) (es1 @ es2)"
      using q1 q2 ms Return by (auto intro: ret)
    ultimately show ?thesis
      using t1 t2 ms by auto
  next
    case (Raise e)
    then have "pbind m f s = (Raise e, s1)" using ms by (simp add: pbind_def)
    with t1 q1 ms Raise rais show ?thesis by auto
  next
    case (Exit c)
    then have "pbind m f s = (Exit c, s1)" using ms by (simp add: pbind_def)
    with t1 q1 ms Exit ex show ?thesis by auto
  next
    case Blocked
    then have "pbind m f s = (Blocked, s1)" using ms by (simp add: pbind_def)
    with t1 q1 ms Blocked bl show ?thesis by auto
  qed
qed

lemma emits_try_except:
  assumes m: "emits m Q1" and h: "\<And>e. emits (h e) Q2"
    and rais: "\<And>e es1 r es2. Q1 (Raise e) es1 \<Longrightarrow> Q2 r es2 \<Longrightarrow> Q r (es1 @ es2)"
    and other: "\<And>r es. Q1 r es \<Longrightarrow> (\<forall>e. r \<noteq> Raise e) \<Longrightarrow> Q r es"
  shows "emits (try_except m h) Q"
proof (rule emitsI)
  fix s
  from m obtain es1 where t1: "trace (snd (m s)) = trace s @ es1" and q1: "Q1 (fst (m s)) es1"
    by (rule emitsD)
  obtain r1 s1 where ms: "m s = (r1, s1)" by (cases "m s")
  show "\<exists>es. trace (snd (try_except m h s)) = trace s @ es \<and> Q (fst (try_except m h s)) es"
  proof (cases "\<exists>e. r1 = Raise e")
    case True
    then obtain e where e: "r1 = Raise e" by blast
    from h [of e] obtain es2 where t2: "trace (snd (h e s1)) = trace s1 @ es2"
      and q2: "Q2 (fst (h e s1)) es2"
      by (rule emitsD)
    have "try_except m h s = h e s1"
      using ms e by (simp add: try_except_def)
    moreover have "Q (fst (h e s1)) (es1 @ es2)"
      using q1 q2 ms e by (auto intro: rais)
    ultimately show ?thesis
      using t1 t2 ms by auto
  next
    case False
    then have "try_except m h s = (r1, s1)"
      using ms by (cases r1) (simp_all add: try_except_def)
    moreover have "Q r1 es1"
      using q1 ms False by (auto intro: other)
    ultimately show ?thesis
      using t1 ms by auto
  qed
qed

subsection \<open>The single steps\<close>

lemma emits_log: "emits (log lv msg) (\<lambda>r es. r = Return () \<and> es = [Log lv msg])"
  by (simp add: emits_def log_def emit_def)

lemma emits_exit: "emits (exit c) (\<lambda>r es. r = Exit c \<and> es = [])"
  by (simp add: emits_def exit_def)

lemma emits_ret: "emits (ret x) (\<lambda>r es. r = Return x \<and> es = [])"
  by (simp add: emits_def ret_def)

lemma emits_clear: "emits (clear t) (\<lambda>r es. r = Return () \<and> es = [ClearCache t])"
  by (simp add: emits_def clear_def)

lemma emits_get_connection:
  "emits get_connection (\<lambda>r es. (r = Return () \<and> es = [GetConnection None])
      \<or> (\<exists>e. r = Raise e \<and> es = [GetConnection (Some e)]))"
  by (auto simp: emits_def get_connection_def split: prod.splits option.splits)

lemma emits_disconnect:
  "emits disconnect (\<lambda>r es. (r = Return () \<and> es = [Disconnect None])
      \<or> (\<exists>e. r = Raise e \<and> es = [Disconnect (Some e)]))"
  by (auto simp: emits_def disconnect_def split: prod.splits option.splits)

lemma emits_db_call:
  "emits (db_call q) (\<lambda>r es. ((\<exists>rows. r = Return rows) \<and> es = [Sql q None])
      \<or> (\<exists>e. r = Raise e \<and> es = [Sql q (Some e)]))"
  by (auto simp: emits_def db_call_def split: prod.splits option.splits sum.splits)

lemma emits_wait_until_ready:
  "emits wait_until_ready (\<lambda>r es. (r = Return () \<or> r = Blocked) \<and> es = [WaitUntilReady])"
  by (simp add: emits_def wait_until_ready_def)

lemma emits_first_row:
  "emits (first_row rows) (\<lambda>r es. ((\<exists>x. r = Return x) \<or> (\<exists>e. r = Raise e)) \<and> es = [])"
  by (auto simp: emits_def first_row_def split: list.splits)

lemma trace_setdefault_items:
  "trace (setdefault_items t r s) = trace s @ map (\<lambda>(k, v). SetDefault t k v) r"
  by (induction t r s rule: setdefault_items.induct) (simp_all add: setdefault_def Let_def)

lemma emits_setdefault_items:
  "emits (\<lambda>s. (Return (), setdefault_items t r s))
     (\<lambda>res es. res = Return () \<and> es = map (\<lambda>(k, v). SetDefault t k v) r)"
  by (simp add: emits_def trace_setdefault_items)

lemma emits_run_sql_exit_on_error:
  "emits (run_sql_exit_on_error q) (\<lambda>r es. ((\<exists>rows. r = Return rows) \<and> es = [Sql q None])
      \<or> (\<exists>e msg. r = Exit 1 \<and> es = [Sql q (Some e), Log CRITICAL msg]))"
  unfolding run_sql_exit_on_error_def
proof (rule emits_try_except [OF emits_db_call])
  fix e
  show "emits (pbind (log CRITICAL (''Error selecting from table - '' @ str_exn e)) (\<lambda>_. exit 1))
     (\<lambda>r es. r = Exit 1 \<and> (\<exists>msg. es = [Log CRITICAL msg]))"
    by (rule emits_pbind [OF emits_log emits_exit]) auto
qed auto

lemma emits_assign_setting:
  "emits (assign_setting t r k v)
     (\<lambda>res es. (res = Return () \<and> (\<exists>i. es = [SetItem t i k v])) \<or> ((\<exists>e. res = Raise e) \<and> es = []))"
  by (auto simp: emits_def assign_setting_def pbind_def row_getitem_def hash_key_def getitem_def
      deepcopy_def store_item_def split: option.splits sum.splits)

lemma assign_items_pbind:
  "assign_items t r ((k, v) # rest) = pbind (assign_setting t r k v) (\<lambda>_. assign_items t r rest)"
  by (rule ext) (auto simp: pbind_def split: prod.splits outcome.splits)

lemma hydrate_rows_pbind:
  "hydrate_rows t (r # rows) = pbind (assign_items t r r) (\<lambda>_. hydrate_rows t rows)"
  by (rule ext) (auto simp: pbind_def split: prod.splits outcome.splits)

lemma run_cache_setup_pbind:
  "run_cache_setup (c # cs) = pbind (call_cache_setup c) (\<lambda>_. run_cache_setup cs)"
  by (rule ext) (auto simp: pbind_def split: prod.splits outcome.splits)

lemma emits_assign_items:
  "emits (assign_items t r items)
     (\<lambda>res es. (res = Return () \<or> (\<exists>e. res = Raise e)) \<and> (\<forall>ev\<in>set es. is_SetItem t ev))"
proof (induction items)
  case Nil
  have "assign_items t r [] = ret ()" by (rule ext) (simp add: ret_def)
  then show ?case by (simp add: emits_def ret_def)
next
  case (Cons a items)
  obtain k v where a: "a = (k, v)" by (cases a)
  show ?case
    unfolding a assign_items_pbind
    by (rule emits_pbind [OF emits_assign_setting Cons]) (auto simp: is_SetItem_def)
qed

lemma emits_hydrate_rows:
  "emits (hydrate_rows t rows)
     (\<lambda>res es. (res = Return () \<or> (\<exists>e. res = Raise e)) \<and> (\<forall>ev\<in>set es. is_SetItem t ev))"
proof (induction rows)
  case Nil
  then show ?case by (simp add: emits_def)
next
  case (Cons r rows)
  show ?case
    unfolding hydrate_rows_pbind
    by (rule emits_pbind [OF emits_assign_items Cons]) auto
qed

lemma emits_call_cache_setup:
  "emits (call_cache_setup c)
     (\<lambda>res es. (snd c = None \<and> res = Return () \<and> es = []) \<or> (snd c \<noteq> None \<and> es = [CacheSetup (fst c)]))"
  by (auto simp: emits_def call_cache_setup_def split: option.splits prod.splits)

lemma emits_run_cache_setup:
  "emits (run_cache_setup cs)
     (\<lambda>res es. \<exists>n. es = map (\<lambda>c. CacheSetup (fst c)) (take n (filter (\<lambda>c. snd c \<noteq> None) cs))
        \<and> ((\<exists>x. res = Return x) \<longrightarrow> n = length (filter (\<lambda>c. snd c \<noteq> None) cs)))"
proof (induction cs)
  case Nil
  then show ?case by (simp add: emits_def)
next
  case (Cons c cs)
  show ?case
    unfolding run_cache_setup_pbind
  proof (rule emits_pbind [OF emits_call_cache_setup Cons])
    fix x es1 r es2
    assume 1: "(snd c = None \<and> Return x = Return () \<and> es1 = []) \<or> (snd c \<noteq> None \<and> es1 = [CacheSetup (fst c)])"
      and 2: "\<exists>n. es2 = map (\<lambda>c. CacheSetup (fst c)) (take n (filter (\<lambda>c. snd c \<noteq> None) cs))
        \<and> ((\<exists>x. r = Return x) \<longrightarrow> n = length (filter (\<lambda>c. snd c \<noteq> None) cs))"
    from 2 obtain n where n: "es2 = map (\<lambda>c. CacheSetup (fst c)) (take n (filter (\<lambda>c. snd c \<noteq> None) cs))"
      and full: "(\<exists>x. r = Return x) \<longrightarrow> n = length (filter (\<lambda>c. snd c \<noteq> None) cs)"
      by blast
    show "\<exists>n. es1 @ es2 = map (\<lambda>c. CacheSetup (fst c)) (take n (filter (\<lambda>c. snd c \<noteq> None) (c # cs)))
        \<and> ((\<exists>x. r = Return x) \<longrightarrow> n = length (filter (\<lambda>c. snd c \<noteq> None) (c # cs)))"
    proof (cases "snd c = None")
      case True
      with 1 n full show ?thesis by auto
    next
      case False
      with 1 n full show ?thesis
        by (intro exI [of _ "Suc n"]) auto
    qed
  next
    fix e es
    assume "(snd c = None \<and> Raise e = Return () \<and> es = []) \<or> (snd c \<noteq> None \<and> es = [CacheSetup (fst c)])"
    then show "\<exists>n. es = map (\<lambda>c. CacheSetup (fst c)) (take n (filter (\<lambda>c. snd c \<noteq> None) (c # cs)))
        \<and> ((\<exists>x. Raise e = Return x) \<longrightarrow> n = length (filter (\<lambda>c. snd c \<noteq> None) (c # cs)))"
      by (intro exI [of _ "Suc 0"]) auto
  next
    fix k es
    assume "(snd c = None \<and> Exit k = Return () \<and> es = []) \<or> (snd c \<noteq> None \<and> es = [CacheSetup (fst c)])"
    then show "\<exists>n. es = map (\<lambda>c. CacheSetup (fst c)) (take n (filter (\<lambda>c. snd c \<noteq> None) (c # cs)))
        \<and> ((\<exists>x. Exit k = Return x) \<longrightarrow> n = length (filter (\<lambda>c. snd c \<noteq> None) (c # cs)))"
      by (intro exI [of _ "Suc 0"]) auto
  next
    fix es
    assume "(snd c = None \<and> Blocked = Return () \<and> es = []) \<or> (snd c \<noteq> None \<and> es = [CacheSetup (fst c)])"
    then show "\<exists>n. es = map (\<lambda>c. CacheSetup (fst c)) (take n (filter (\<lambda>c. snd c \<noteq> None) (c # cs)))
        \<and> ((\<exists>x. Blocked = Return x) \<longrightarrow> n = length (filter (\<lambda>c. snd c \<noteq> None) (c # cs)))"
      by (intro exI [of _ "Suc 0"]) auto
  qed
qed

section \<open>Database errors during startup\<close>

lemma failure_shape_Return: "failure_shape (Return x) es \<Longrightarrow> \<forall>x\<in>set es. quiet x"
  by (auto simp: failure_shape_def)

lemma failure_shape_quiet: "\<forall>x\<in>set es. quiet x \<Longrightarrow> failure_shape r es"
  by (simp add: failure_shape_def)

lemma failure_shape_prepend:
  assumes "\<forall>x\<in>set es1. quiet x" and "failure_shape r es2"
  shows "failure_shape r (es1 @ es2)"
proof -
  from assms(2) consider
    (q) "\<forall>x\<in>set es2. quiet x"
  | (raised) pre e ex where "es2 = pre @ [e]" "\<forall>x\<in>set pre. quiet x" "db_error e" "\<not> bulk_query e" "r = Raise ex"
  | (exited) pre e msg where "es2 = pre @ [e, Log CRITICAL msg]" "\<forall>x\<in>set pre. quiet x" "db_error e"
      "bulk_query e" "r = Exit 1"
    unfolding failure_shape_def by blast
  then show ?thesis
  proof cases
    case q
    with assms(1) have "\<forall>x\<in>set (es1 @ es2). quiet x" by auto
    then show ?thesis by (rule failure_shape_quiet)
  next
    case raised
    with assms(1) have "es1 @ es2 = (es1 @ pre) @ [e]" and "\<forall>x\<in>set (es1 @ pre). quiet x"
      by auto
    with raised show ?thesis unfolding failure_shape_def by blast
  next
    case exited
    with assms(1) have "es1 @ es2 = (es1 @ pre) @ [e, Log CRITICAL msg]" and "\<forall>x\<in>set (es1 @ pre). quiet x"
      by auto
    with exited show ?thesis unfolding failure_shape_def by blast
  qed
qed

lemma failure_shape_Raise:
  "failure_shape (Raise e :: 'a outcome) es \<Longrightarrow> failure_shape (Raise e :: 'b outcome) es"
  unfolding failure_shape_def by simp

lemma failure_shape_Exit:
  "failure_shape (Exit c :: 'a outcome) es \<Longrightarrow> failure_shape (Exit c :: 'b outcome) es"
  unfolding failure_shape_def by simp

lemma failure_shape_Blocked:
  "failure_shape (Blocked :: 'a outcome) es \<Longrightarrow> failure_shape (Blocked :: 'b outcome) es"
  unfolding failure_shape_def by simp

lemma failure_shape_pbind:
  assumes "emits m failure_shape" and "\<And>x. emits (f x) failure_shape"
  shows "emits (pbind m f) failure_shape"
proof (rule emits_pbind [OF assms])
  fix x :: 'a and es1 and r :: "'b outcome" and es2
  assume a: "failure_shape (Return x) es1" and b: "failure_shape r es2"
  from failure_shape_Return [OF a] have "\<forall>x\<in>set es1. quiet x" .
  then show "failure_shape r (es1 @ es2)"
    using b by (rule failure_shape_prepend)
next
  fix e es assume "failure_shape (Raise e :: 'a outcome) es"
  then show "failure_shape (Raise e :: 'b outcome) es" by (rule failure_shape_Raise)
next
  fix c es assume "failure_shape (Exit c :: 'a outcome) es"
  then show "failure_shape (Exit c :: 'b outcome) es" by (rule failure_shape_Exit)
next
  fix es assume "failure_shape (Blocked :: 'a outcome) es"
  then show "failure_shape (Blocked :: 'b outcome) es" by (rule failure_shape_Blocked)
qed

lemma quiet_simps [simp]:
  "quiet (Log DEBUG msg)" "quiet (Log INFO msg)" "\<not> quiet (Log ERROR msg)" "\<not> quiet (Log CRITICAL msg)"
  "quiet (ClearCache t)" "quiet (GetConnection None)" "quiet (Sql q None)" "quiet (Disconnect None)"
  "quiet (CacheSetup name)" "quiet WaitUntilReady" "quiet (SetDefault t k v)" "quiet (SetItem t i k v)"
  "quiet (LoadToml f x)"
  by (simp_all add: quiet_def)

lemma failure_shape_raised:
  assumes "db_error e" and "\<not> bulk_query e"
  shows "failure_shape (Raise ex) [e]"
proof -
  have "[e] = [] @ [e]" and "\<forall>x\<in>set []. quiet x" by simp_all
  with assms show ?thesis unfolding failure_shape_def by blast
qed

lemma failure_shape_exited:
  assumes "db_error e" and "bulk_query e"
  shows "failure_shape (Exit 1) [e, Log CRITICAL msg]"
proof -
  have "[e, Log CRITICAL msg] = [] @ [e, Log CRITICAL msg]" and "\<forall>x\<in>set []. quiet x" by simp_all
  with assms show ?thesis unfolding failure_shape_def by blast
qed

lemma fs_log_debug: "emits (log DEBUG msg) failure_shape"
  by (rule emits_weaken [OF emits_log]) (simp add: failure_shape_quiet)

lemma fs_clear: "emits (clear t) failure_shape"
  by (rule emits_weaken [OF emits_clear]) (simp add: failure_shape_quiet)

lemma fs_ret: "emits (ret x) failure_shape"
  by (rule emits_weaken [OF emits_ret]) (simp add: failure_shape_quiet)

lemma fs_first_row: "emits (first_row rows) failure_shape"
  by (rule emits_weaken [OF emits_first_row]) (simp add: failure_shape_quiet)

lemma fs_get_connection: "emits get_connection failure_shape"
  by (rule emits_weaken [OF emits_get_connection]) (auto intro: failure_shape_quiet failure_shape_raised)

lemma fs_disconnect: "emits disconnect failure_shape"
  by (rule emits_weaken [OF emits_disconnect]) (auto intro: failure_shape_quiet failure_shape_raised)

lemma fs_select_sentinel: "emits (db_call (SelectSentinel t)) failure_shape"
  by (rule emits_weaken [OF emits_db_call]) (auto intro: failure_shape_quiet failure_shape_raised)

lemma fs_insert_sentinel: "emits (db_call (InsertSentinel t)) failure_shape"
  by (rule emits_weaken [OF emits_db_call]) (auto intro: failure_shape_quiet failure_shape_raised)

lemma fs_setdefault_items: "emits (\<lambda>s. (Return (), setdefault_items t r s)) failure_shape"
  by (rule emits_weaken [OF emits_setdefault_items]) (auto intro!: failure_shape_quiet)

lemma fs_get_all_table_data: "emits (get_all_table_data t) failure_shape"
  unfolding get_all_table_data_def
  by (rule emits_weaken [OF emits_run_sql_exit_on_error])
     (auto intro: failure_shape_quiet failure_shape_exited)

lemma fs_hydrate_rows: "emits (hydrate_rows t rows) failure_shape"
  by (rule emits_weaken [OF emits_hydrate_rows]) (auto intro!: failure_shape_quiet simp: is_SetItem_def)

lemma fs_run_cache_setup: "emits (run_cache_setup cs) failure_shape"
  by (rule emits_weaken [OF emits_run_cache_setup]) (auto intro!: failure_shape_quiet dest!: in_set_takeD)

lemma fs_wait_until_ready: "emits wait_until_ready failure_shape"
  by (rule emits_weaken [OF emits_wait_until_ready]) (auto intro!: failure_shape_quiet)

lemma emits_state_dependent:
  assumes "\<And>x. emits (m x) Q"
  shows "emits (\<lambda>s. m (g s) s) Q"
  using assms unfolding emits_def by blast

lemma fs_get_default_settings: "emits (get_default_settings t) failure_shape"
  unfolding get_default_settings_def
  by (intro failure_shape_pbind fs_select_sentinel fs_first_row fs_setdefault_items)
     (simp add: fs_insert_sentinel fs_ret)

lemma fs_get_settings: "emits (get_settings t) failure_shape"
  unfolding get_settings_def
  by (intro failure_shape_pbind fs_get_all_table_data fs_hydrate_rows)

lemma fs_startup_impl: "emits startup_impl failure_shape"
  unfolding startup_impl_def
  by (intro failure_shape_pbind fs_log_debug fs_clear fs_get_connection fs_get_default_settings
      fs_get_settings emits_state_dependent [of run_cache_setup, OF fs_run_cache_setup]
      fs_wait_until_ready fs_disconnect)

lemma fatal_shape_clean: "\<forall>x\<in>set es. \<not> db_error x \<Longrightarrow> fatal_shape r es"
  by (simp add: fatal_shape_def)

lemma emits_startup_fatal: "emits startup fatal_shape"
  unfolding startup_def
proof (rule emits_try_except [OF fs_startup_impl])
  fix e
  show "emits (pbind (log ERROR (str_exn e)) (\<lambda>_. exit 1))
     (\<lambda>r es. r = Exit 1 \<and> (\<exists>msg. es = [Log ERROR msg]))"
    by (rule emits_pbind [OF emits_log emits_exit]) auto
next
  fix e es1 and r :: "unit outcome" and es2
  assume 1: "failure_shape (Raise e :: unit outcome) es1" and 2: "r = Exit 1 \<and> (\<exists>msg. es2 = [Log ERROR msg])"
  from 2 obtain msg where r: "r = Exit 1" and es2: "es2 = [Log ERROR msg]" by blast
  from 1 consider (q) "\<forall>x\<in>set es1. quiet x"
    | (raised) pre ev where "es1 = pre @ [ev]" "\<forall>x\<in>set pre. quiet x" "db_error ev" "\<not> bulk_query ev"
    unfolding failure_shape_def by auto
  then show "fatal_shape r (es1 @ es2)"
  proof cases
    case q
    then have "\<forall>x\<in>set (es1 @ es2). \<not> db_error x"
      by (auto simp: es2 quiet_def)
    then show ?thesis by (rule fatal_shape_clean)
  next
    case raised
    then have "es1 @ es2 = pre @ [ev, Log (if bulk_query ev then CRITICAL else ERROR) msg]"
      by (simp add: es2)
    with raised r show ?thesis unfolding fatal_shape_def by blast
  qed
next
  fix r :: "unit outcome" and es
  assume 1: "failure_shape r es" and 2: "\<forall>e. r \<noteq> Raise e"
  from 1 2 consider (q) "\<forall>x\<in>set es. quiet x"
    | (exited) pre ev msg where "es = pre @ [ev, Log CRITICAL msg]" "\<forall>x\<in>set pre. quiet x" "db_error ev"
      "bulk_query ev" "r = Exit 1"
    unfolding failure_shape_def by auto
  then show "fatal_shape r es"
  proof cases
    case q
    then have "\<forall>x\<in>set es. \<not> db_error x"
      by (auto simp: quiet_def)
    then show ?thesis by (rule fatal_shape_clean)
  next
    case exited
    then have "es = pre @ [ev, Log (if bulk_query ev then CRITICAL else ERROR) msg]"
      by simp
    with exited show ?thesis unfolding fatal_shape_def by blast
  qed
qed

text \<open>
  Claim C4, as the code has it. When a call of \<open>startup\<close> on its connection raises (the
  acquisition, a sentinel select or insert, a bulk query, the release), the process exits
  with status 1. The failing call is followed by exactly one more event, the report of
  the failure: at critical severity for a bulk query, which goes through
  \<open>_run_sql_exit_on_error\<close>, at error severity otherwise, from the handler of \<open>startup\<close>.
  Everything before the failing call is free of database errors and failure reports.
\<close>

theorem startup_database_error_is_fatal:
  assumes "startup s = (r, s')" and "trace s' = trace s @ es" and "e \<in> set es" and "db_error e"
  shows "r = Exit 1
     \<and> (\<exists>pre msg. es = pre @ [e, Log (if bulk_query e then CRITICAL else ERROR) msg]
          \<and> (\<forall>x\<in>set pre. quiet x))"
proof -
  from emits_startup_fatal obtain es' where t: "trace (snd (startup s)) = trace s @ es'"
    and sh: "fatal_shape (fst (startup s)) es'"
    by (rule emitsD)
  from t assms(1,2) have "es' = es" by simp
  with sh assms(1) have "fatal_shape r es" by simp
  with assms(3,4) obtain pre e0 msg where
    es: "es = pre @ [e0, Log (if bulk_query e0 then CRITICAL else ERROR) msg]"
    and q: "\<forall>x\<in>set pre. quiet x" and "db_error e0" and r: "r = Exit 1"
    unfolding fatal_shape_def by blast
  from assms(3,4) es q have "e = e0"
    by (auto simp: quiet_def)
  with es q r show ?thesis by blast
qed

lemma bulk_failing_startup_exits: "fst (startup bulk_failing_state) = Exit 1"
  by (simp add: bulk_failing_state_def example_state_eq prog_defs startup_defs example_db_def example_cogs_def)

lemma bulk_failing_startup_trace:
  "trace (snd (startup bulk_failing_state)) =
     [Log INFO ''Reloading config'', LoadToml ''config/config.toml'' None,
      Log DEBUG ''Clearing caches'', ClearCache Guild, ClearCache User, GetConnection None,
      Sql (SelectSentinel Guild) None,
      SetDefault Guild ''guild_id'' (VInt 0), SetDefault Guild ''prefix'' (VStr ''!''),
      Sql (SelectAll Guild) (Some (PostgresError ''connection lost'')),
      Log CRITICAL ''Error selecting from table - connection lost'']"
  by (simp add: bulk_failing_state_def example_state_eq prog_defs startup_defs example_db_def example_cogs_def)

lemma failing_trace:
  "trace failing_state = [Log INFO ''Reloading config'', LoadToml ''config/config.toml'' None]"
  by (simp add: failing_state_def example_state_eq)

lemma bulk_failing_trace:
  "trace bulk_failing_state = [Log INFO ''Reloading config'', LoadToml ''config/config.toml'' None]"
  by (simp add: bulk_failing_state_def example_state_eq)

text \<open>
  The claim as stated fails: when the select of the sentinel row raises, \<open>startup\<close> logs
  the exception at error severity and exits with status 1; no line is logged at
  critical severity.
\<close>

theorem sentinel_query_error_counterexample:
  "fst (startup failing_state) = Exit 1
   \<and> trace (snd (startup failing_state)) =
       [Log INFO ''Reloading config'', LoadToml ''config/config.toml'' None,
        Log DEBUG ''Clearing caches'', ClearCache Guild, ClearCache User, GetConnection None,
        Sql (SelectSentinel Guild) (Some (PostgresError ''connection lost'')),
        Log ERROR ''connection lost'']
   \<and> filter critical (trace (snd (startup failing_state))) = []"
  by (simp add: failing_startup_exits failing_startup_trace)

theorem startup_database_error_witness:
  "Sql (SelectSentinel Guild) (Some (PostgresError ''connection lost''))
      \<in> set (trace (snd (startup failing_state)))
   \<and> fst (startup failing_state) = Exit 1
   \<and> Sql (SelectAll Guild) (Some (PostgresError ''connection lost''))
      \<in> set (trace (snd (startup bulk_failing_state)))
   \<and> fst (startup bulk_failing_state) = Exit 1"
proof -
  let ?e = "Sql (SelectSentinel Guild) (Some (PostgresError ''connection lost''))"
  let ?es = "[Log DEBUG ''Clearing caches'', ClearCache Guild, ClearCache User, GetConnection None,
        ?e, Log ERROR ''connection lost'']"
  have run: "startup failing_state = (fst (startup failing_state), snd (startup failing_state))"
    by simp
  have tr: "trace (snd (startup failing_state)) = trace failing_state @ ?es"
    by (simp add: failing_startup_trace failing_trace)
  have mem: "?e \<in> set ?es" by simp
  have err: "db_error ?e" by simp
  from startup_database_error_is_fatal [OF run tr mem err]
  have 1: "fst (startup failing_state) = Exit 1" by (rule conjunct1)
  let ?b = "Sql (SelectAll Guild) (Some (PostgresError ''connection lost''))"
  let ?bs = "[Log DEBUG ''Clearing caches'', ClearCache Guild, ClearCache User, GetConnection None,
      Sql (SelectSentinel Guild) None,
      SetDefault Guild ''guild_id'' (VInt 0), SetDefault Guild ''prefix'' (VStr ''!''),
      ?b, Log CRITICAL ''Error selecting from table - connection lost'']"
  have runb: "startup bulk_failing_state = (fst (startup bulk_failing_state), snd (startup bulk_failing_state))"
    by simp
  have trb: "trace (snd (startup bulk_failing_state)) = trace bulk_failing_state @ ?bs"
    by (simp add: bulk_failing_startup_trace bulk_failing_trace)
  have memb: "?b \<in> set ?bs" by simp
  have errb: "db_error ?b" by simp
  from startup_database_error_is_fatal [OF runb trb memb errb]
  have 2: "fst (startup bulk_failing_state) = Exit 1" by (rule conjunct1)
  from 1 2 show ?thesis
    by (simp add: failing_startup_trace bulk_failing_startup_trace)
qed

section \<open>Releasing the connection\<close>

lemma only_pbind:
  assumes "emits m (only P)" and "\<And>x. emits (f x) (only P)"
  shows "emits (pbind m f) (only P)"
  by (rule emits_pbind [OF assms]) (auto simp: only_def)

lemma released_prepend:
  assumes "\<forall>x\<in>set es1. \<not> is_Disconnect x" and "released r es2"
  shows "released r (es1 @ es2)"
proof (cases "r = Return ()")
  case True
  with assms(2) obtain pre where es2: "es2 = pre @ [Disconnect None]" and pre: "\<forall>x\<in>set pre. \<not> is_Disconnect x"
    by (auto simp: released_def)
  have "es1 @ es2 = (es1 @ pre) @ [Disconnect None]" and "\<forall>x\<in>set (es1 @ pre). \<not> is_Disconnect x"
    using es2 pre assms(1) by auto
  then have "\<exists>pre'. es1 @ es2 = pre' @ [Disconnect None] \<and> (\<forall>x\<in>set pre'. \<not> is_Disconnect x)"
    by blast
  with True show ?thesis by (simp add: released_def)
next
  case False
  have "Disconnect None \<notin> set es1"
    using assms(1) by force
  with False assms(2) show ?thesis by (simp add: released_def)
qed

lemma released_other:
  assumes "\<forall>x\<in>set es. \<not> is_Disconnect x" and "r \<noteq> Return ()"
  shows "released r es"
proof -
  have "Disconnect None \<notin> set es"
    using assms(1) by force
  with assms(2) show ?thesis by (simp add: released_def)
qed

lemma released_pbind:
  assumes "emits m (only (\<lambda>x. \<not> is_Disconnect x))" and "\<And>x. emits (f x) released"
  shows "emits (pbind m f) released"
proof (rule emits_pbind [OF assms])
  fix x :: 'a and es1 and r :: "unit outcome" and es2
  assume "only (\<lambda>x. \<not> is_Disconnect x) (Return x) es1" and b: "released r es2"
  then have "\<forall>x\<in>set es1. \<not> is_Disconnect x" by (simp add: only_def)
  then show "released r (es1 @ es2)" using b by (rule released_prepend)
next
  fix e es assume "only (\<lambda>x. \<not> is_Disconnect x) (Raise e :: 'a outcome) es"
  then have "\<forall>x\<in>set es. \<not> is_Disconnect x" by (simp add: only_def)
  then show "released (Raise e) es" by (rule released_other) simp
next
  fix c es assume "only (\<lambda>x. \<not> is_Disconnect x) (Exit c :: 'a outcome) es"
  then have "\<forall>x\<in>set es. \<not> is_Disconnect x" by (simp add: only_def)
  then show "released (Exit c) es" by (rule released_other) simp
next
  fix es assume "only (\<lambda>x. \<not> is_Disconnect x) (Blocked :: 'a outcome) es"
  then have "\<forall>x\<in>set es. \<not> is_Disconnect x" by (simp add: only_def)
  then show "released Blocked es" by (rule released_other) simp
qed

lemma nd_log: "emits (log lv msg) (only (\<lambda>x. \<not> is_Disconnect x))"
  by (rule emits_weaken [OF emits_log]) (simp add: only_def)

lemma nd_clear: "emits (clear t) (only (\<lambda>x. \<not> is_Disconnect x))"
  by (rule emits_weaken [OF emits_clear]) (simp add: only_def)

lemma nd_ret: "emits (ret x) (only (\<lambda>x. \<not> is_Disconnect x))"
  by (rule emits_weaken [OF emits_ret]) (simp add: only_def)

lemma nd_first_row: "emits (first_row rows) (only (\<lambda>x. \<not> is_Disconnect x))"
  by (rule emits_weaken [OF emits_first_row]) (simp add: only_def)

lemma nd_get_connection: "emits get_connection (only (\<lambda>x. \<not> is_Disconnect x))"
  by (rule emits_weaken [OF emits_get_connection]) (auto simp: only_def)

lemma nd_db_call: "emits (db_call q) (only (\<lambda>x. \<not> is_Disconnect x))"
  by (rule emits_weaken [OF emits_db_call]) (auto simp: only_def)

lemma nd_setdefault_items:
  "emits (\<lambda>s. (Return (), setdefault_items t r s)) (only (\<lambda>x. \<not> is_Disconnect x))"
  by (rule emits_weaken [OF emits_setdefault_items]) (auto simp: only_def)

lemma nd_get_all_table_data: "emits (get_all_table_data t) (only (\<lambda>x. \<not> is_Disconnect x))"
  unfolding get_all_table_data_def
  by (rule emits_weaken [OF emits_run_sql_exit_on_error]) (auto simp: only_def)

lemma nd_hydrate_rows: "emits (hydrate_rows t rows) (only (\<lambda>x. \<not> is_Disconnect x))"
  by (rule emits_weaken [OF emits_hydrate_rows]) (auto simp: only_def is_SetItem_def)

lemma nd_run_cache_setup: "emits (run_cache_setup cs) (only (\<lambda>x. \<not> is_Disconnect x))"
  by (rule emits_weaken [OF emits_run_cache_setup]) (auto simp: only_def dest!: in_set_takeD)

lemma nd_wait_until_ready: "emits wait_until_ready (only (\<lambda>x. \<not> is_Disconnect x))"
  by (rule emits_weaken [OF emits_wait_until_ready]) (auto simp: only_def)

lemma nd_get_default_settings: "emits (get_default_settings t) (only (\<lambda>x. \<not> is_Disconnect x))"
  unfolding get_default_settings_def
  by (intro only_pbind nd_db_call nd_first_row nd_setdefault_items) (simp add: nd_db_call nd_ret)

lemma nd_get_settings: "emits (get_settings t) (only (\<lambda>x. \<not> is_Disconnect x))"
  unfolding get_settings_def
  by (intro only_pbind nd_get_all_table_data nd_hydrate_rows)

lemma released_disconnect: "emits disconnect released"
proof (rule emits_weaken [OF emits_disconnect])
  fix r :: "unit outcome" and es
  assume "r = Return () \<and> es = [Disconnect None] \<or> (\<exists>e. r = Raise e \<and> es = [Disconnect (Some e)])"
  then show "released r es"
  proof
    assume "r = Return () \<and> es = [Disconnect None]"
    then have "r = Return ()" and "es = [] @ [Disconnect None]" by simp_all
    then show ?thesis by (simp add: released_def)
  next
    assume "\<exists>e. r = Raise e \<and> es = [Disconnect (Some e)]"
    then show ?thesis by (auto simp: released_def)
  qed
qed

lemma released_startup_impl: "emits startup_impl released"
  unfolding startup_impl_def
  by (intro released_pbind nd_log nd_clear nd_get_connection nd_get_default_settings
      nd_get_settings emits_state_dependent [of run_cache_setup, OF nd_run_cache_setup]
      nd_wait_until_ready released_disconnect)

lemma released_startup: "emits startup released"
  unfolding startup_def
proof (rule emits_try_except [OF released_startup_impl])
  fix e
  show "emits (pbind (log ERROR (str_exn e)) (\<lambda>_. exit 1))
     (\<lambda>r es. r = Exit 1 \<and> (\<exists>msg. es = [Log ERROR msg]))"
    by (rule emits_pbind [OF emits_log emits_exit]) auto
next
  fix e es1 and r :: "unit outcome" and es2
  assume 1: "released (Raise e) es1" and 2: "r = Exit 1 \<and> (\<exists>msg. es2 = [Log ERROR msg])"
  from 1 have "Disconnect None \<notin> set es1" by (simp add: released_def)
  with 2 show "released r (es1 @ es2)" by (auto simp: released_def)
next
  fix r :: "unit outcome" and es
  assume "released r es"
  then show "released r es" .
qed

section \<open>The order of the steps\<close>

lemma phase_le: "phase x \<le> 10"
  by (cases x rule: phase.cases) simp_all

lemma phase_Sql: "phase (Sql q (Some e)) = phase (Sql q None)"
  by (cases "Sql q (Some e)" rule: phase.cases) simp_all

lemma phase_InsertSentinel: "phase (Sql (InsertSentinel t) x) = phase (Sql (SelectSentinel t) None)"
  by (cases t) simp_all

lemma phase_SetDefault: "phase (SetDefault t k v) = phase (Sql (SelectSentinel t) None)"
  by (cases t) simp_all

lemma phase_SetItem: "phase (SetItem t i k v) = phase (Sql (SelectAll t) None)"
  by (cases t) simp_all

lemma within_pbind:
  assumes "emits m (within a b)" and "\<And>x. emits (f x) (within c d)"
    and "b \<le> c" and "a \<le> c" and "b \<le> d"
  shows "emits (pbind m f) (within a d)"
proof (rule emits_pbind [OF assms(1,2)])
  fix x :: 'a and es1 and r :: "'b outcome" and es2
  assume 1: "within a b (Return x) es1" and 2: "within c d r es2"
  from 1 have s1: "sorted (map phase es1)" and lo1: "\<forall>x\<in>set es1. a \<le> phase x"
    and hi1: "\<forall>x\<in>set es1. phase x \<le> b"
    by (simp_all add: within_def)
  from 2 have s2: "sorted (map phase es2)" and lo2: "\<forall>x\<in>set es2. c \<le> phase x"
    and hi2: "(\<exists>v. r = Return v) \<longrightarrow> (\<forall>x\<in>set es2. phase x \<le> d)"
    by (simp_all add: within_def)
  have "\<forall>x\<in>set es1. \<forall>y\<in>set es2. phase x \<le> phase y"
    using hi1 lo2 assms(3) by (meson order_trans)
  then have "sorted (map phase (es1 @ es2))"
    using s1 s2 by (simp add: sorted_append)
  moreover have "\<forall>x\<in>set (es1 @ es2). a \<le> phase x"
    using lo1 lo2 assms(4) by (auto intro: order_trans)
  moreover have "(\<exists>v. r = Return v) \<longrightarrow> (\<forall>x\<in>set (es1 @ es2). phase x \<le> d)"
    using hi1 hi2 assms(5) by (auto intro: order_trans)
  ultimately show "within a d r (es1 @ es2)"
    by (simp add: within_def)
qed (simp_all add: within_def)

lemma contains_pbind:
  assumes "emits m (contains X)" and "\<And>x. emits (f x) (contains Y)"
  shows "emits (pbind m f) (contains (X \<union> Y))"
  by (rule emits_pbind [OF assms]) (auto simp: contains_def)

subsection \<open>Each step in its phase\<close>

lemma sorted_constant:
  assumes "\<forall>x\<in>set es. phase x = p"
  shows "sorted (map phase es)"
proof -
  from assms have "map phase es = replicate (length es) p"
    by (induction es) simp_all
  then show ?thesis by (simp add: sorted_replicate)
qed

lemma within_constant:
  assumes "\<forall>x\<in>set es. phase x = p"
  shows "within p p r es"
  using assms sorted_constant [OF assms] by (simp add: within_def)

lemma w_log_clearing: "emits (log DEBUG ''Clearing caches'') (within 1 1)"
  by (rule emits_weaken [OF emits_log]) (simp add: within_def)

lemma w_log_waiting:
  "emits (log DEBUG ''Waiting until ready before completing startup method.'') (within 8 8)"
  by (rule emits_weaken [OF emits_log]) (simp add: within_def)

lemma w_clear: "emits (clear t) (within 1 1)"
  by (rule emits_weaken [OF emits_clear]) (simp add: within_def)

lemma w_get_connection: "emits get_connection (within 2 2)"
  by (rule emits_weaken [OF emits_get_connection]) (auto simp: within_def)

lemma w_disconnect: "emits disconnect (within 9 9)"
  by (rule emits_weaken [OF emits_disconnect]) (auto simp: within_def)

lemma w_wait_until_ready: "emits wait_until_ready (within 8 8)"
  by (rule emits_weaken [OF emits_wait_until_ready]) (auto simp: within_def)

lemma w_run_cache_setup: "emits (run_cache_setup cs) (within 7 7)"
proof (rule emits_weaken [OF emits_run_cache_setup])
  fix r :: "unit outcome" and es
  assume "\<exists>n. es = map (\<lambda>c. CacheSetup (fst c)) (take n (filter (\<lambda>c. snd c \<noteq> None) cs))
        \<and> ((\<exists>x. r = Return x) \<longrightarrow> n = length (filter (\<lambda>c. snd c \<noteq> None) cs))"
  then obtain n where es: "es = map (\<lambda>c. CacheSetup (fst c)) (take n (filter (\<lambda>c. snd c \<noteq> None) cs))"
    by blast
  have "\<forall>x\<in>set es. phase x = 7"
    unfolding es by auto
  then show "within 7 7 r es"
    by (rule within_constant)
qed

lemma w_select_sentinel:
  "emits (db_call (SelectSentinel t))
     (within (phase (Sql (SelectSentinel t) None)) (phase (Sql (SelectSentinel t) None)))"
  by (rule emits_weaken [OF emits_db_call]) (auto simp: within_def phase_Sql)

lemma w_insert_sentinel:
  "emits (db_call (InsertSentinel t))
     (within (phase (Sql (SelectSentinel t) None)) (phase (Sql (SelectSentinel t) None)))"
  by (rule emits_weaken [OF emits_db_call]) (auto simp: within_def phase_InsertSentinel)

lemma w_ret: "emits (ret x) (within a b)"
  by (rule emits_weaken [OF emits_ret]) (simp add: within_def)

lemma w_first_row: "emits (first_row rows) (within a b)"
  by (rule emits_weaken [OF emits_first_row]) (simp add: within_def)

lemma w_setdefault_items:
  "emits (\<lambda>s. (Return (), setdefault_items t r s))
     (within (phase (Sql (SelectSentinel t) None)) (phase (Sql (SelectSentinel t) None)))"
proof (rule emits_weaken [OF emits_setdefault_items])
  fix res :: "unit outcome" and es
  assume "res = Return () \<and> es = map (\<lambda>(k, v). SetDefault t k v) r"
  then have "\<forall>x\<in>set es. phase x = phase (Sql (SelectSentinel t) None)"
    by (auto simp: phase_SetDefault)
  then show "within (phase (Sql (SelectSentinel t) None)) (phase (Sql (SelectSentinel t) None)) res es"
    by (rule within_constant)
qed

lemma w_hydrate_rows:
  "emits (hydrate_rows t rows)
     (within (phase (Sql (SelectAll t) None)) (phase (Sql (SelectAll t) None)))"
proof (rule emits_weaken [OF emits_hydrate_rows])
  fix res :: "unit outcome" and es
  assume "(res = Return () \<or> (\<exists>e. res = Raise e)) \<and> (\<forall>ev\<in>set es. is_SetItem t ev)"
  then have "\<forall>x\<in>set es. phase x = phase (Sql (SelectAll t) None)"
    by (auto simp: is_SetItem_def phase_SetItem)
  then show "within (phase (Sql (SelectAll t) None)) (phase (Sql (SelectAll t) None)) res es"
    by (rule within_constant)
qed

lemma w_get_all_table_data:
  "emits (get_all_table_data t)
     (within (phase (Sql (SelectAll t) None)) (phase (Sql (SelectAll t) None)))"
  unfolding get_all_table_data_def
  by (rule emits_weaken [OF emits_run_sql_exit_on_error])
     (auto simp: within_def phase_Sql phase_le)

lemma within_pbind_same:
  assumes "emits m (within p p)" and "\<And>x. emits (f x) (within p p)"
  shows "emits (pbind m f) (within p p)"
  by (rule within_pbind [OF assms]) simp_all

lemma w_get_default_settings:
  "emits (get_default_settings t)
     (within (phase (Sql (SelectSentinel t) None)) (phase (Sql (SelectSentinel t) None)))"
  unfolding get_default_settings_def
  by (intro within_pbind_same w_select_sentinel w_first_row w_setdefault_items)
     (simp add: w_insert_sentinel w_ret)

lemma w_get_settings:
  "emits (get_settings t)
     (within (phase (Sql (SelectAll t) None)) (phase (Sql (SelectAll t) None)))"
  unfolding get_settings_def
  by (intro within_pbind_same w_get_all_table_data w_hydrate_rows)

lemma w_guild_defaults: "emits (get_default_settings Guild) (within 3 3)"
  using w_get_default_settings [of Guild] by simp

lemma w_guild_rows: "emits (get_settings Guild) (within 4 4)"
  using w_get_settings [of Guild] by simp

lemma w_user_defaults: "emits (get_default_settings User) (within 5 5)"
  using w_get_default_settings [of User] by simp

lemma w_user_rows: "emits (get_settings User) (within 6 6)"
  using w_get_settings [of User] by simp

lemma w_startup_impl: "emits startup_impl (within 1 9)"
  unfolding startup_impl_def
  apply (rule within_pbind [where a = 1 and b = 1 and c = 1 and d = 9, OF w_log_clearing])
      apply (rule within_pbind [where a = 1 and b = 1 and c = 1 and d = 9, OF w_clear])
          apply (rule within_pbind [where a = 1 and b = 1 and c = 2 and d = 9, OF w_clear])
              apply (rule within_pbind [where a = 2 and b = 2 and c = 3 and d = 9, OF w_get_connection])
                  apply (rule within_pbind [where a = 3 and b = 3 and c = 4 and d = 9, OF w_guild_defaults])
                      apply (rule within_pbind [where a = 4 and b = 4 and c = 5 and d = 9, OF w_guild_rows])
                          apply (rule within_pbind [where a = 5 and b = 5 and c = 6 and d = 9, OF w_user_defaults])
                              apply (rule within_pbind [where a = 6 and b = 6 and c = 7 and d = 9, OF w_user_rows])
                                  apply (rule within_pbind [where a = 7 and b = 7 and c = 8 and d = 9,
                                        OF emits_state_dependent [of run_cache_setup, OF w_run_cache_setup]])
                                      apply (rule within_pbind [where a = 8 and b = 8 and c = 8 and d = 9, OF w_log_waiting])
                                          apply (rule within_pbind [where a = 8 and b = 8 and c = 9 and d = 9, OF w_wait_until_ready])
                                              apply (rule w_disconnect)
                                             apply simp_all
  done

lemma sorted_startup: "emits startup (\<lambda>r es. sorted (map phase es))"
  unfolding startup_def
proof (rule emits_try_except [OF w_startup_impl])
  fix e
  show "emits (pbind (log ERROR (str_exn e)) (\<lambda>_. exit 1))
     (\<lambda>r es. r = Exit 1 \<and> (\<exists>msg. es = [Log ERROR msg]))"
    by (rule emits_pbind [OF emits_log emits_exit]) auto
next
  fix e es1 and r :: "unit outcome" and es2
  assume 1: "within 1 9 (Raise e :: unit outcome) es1" and 2: "r = Exit 1 \<and> (\<exists>msg. es2 = [Log ERROR msg])"
  from 2 obtain msg where es2: "es2 = [Log ERROR msg]" by blast
  from 1 have "sorted (map phase es1)" by (simp add: within_def)
  then show "sorted (map phase (es1 @ es2))"
    by (simp add: es2 sorted_append phase_le)
next
  fix r :: "unit outcome" and es
  assume "within 1 9 r es"
  then show "sorted (map phase es)" by (simp add: within_def)
qed

subsection \<open>The events of a successful run\<close>

lemma contains_empty: "contains {} r es"
  by (simp add: contains_def)

lemma c_any:
  assumes "emits m Q"
  shows "emits m (contains {})"
  by (rule emits_weaken [OF assms]) (rule contains_empty)

lemma c_clear: "emits (clear t) (contains {ClearCache t})"
  by (rule emits_weaken [OF emits_clear]) (simp add: contains_def)

lemma c_get_connection: "emits get_connection (contains {GetConnection None})"
  by (rule emits_weaken [OF emits_get_connection]) (auto simp: contains_def)

lemma c_disconnect: "emits disconnect (contains {Disconnect None})"
  by (rule emits_weaken [OF emits_disconnect]) (auto simp: contains_def)

lemma c_wait_until_ready: "emits wait_until_ready (contains {WaitUntilReady})"
  by (rule emits_weaken [OF emits_wait_until_ready]) (auto simp: contains_def)

lemma c_db_call: "emits (db_call q) (contains {Sql q None})"
  by (rule emits_weaken [OF emits_db_call]) (auto simp: contains_def)

lemma c_get_all_table_data: "emits (get_all_table_data t) (contains {Sql (SelectAll t) None})"
  unfolding get_all_table_data_def
  by (rule emits_weaken [OF emits_run_sql_exit_on_error]) (auto simp: contains_def)

lemma nd_default_rest:
  "emits (pbind (if found = [] then db_call (InsertSentinel t) else ret found)
            (\<lambda>default_settings. pbind (first_row default_settings)
               (\<lambda>r s. (Return (), setdefault_items t r s))))
     (only (\<lambda>x. \<not> is_Disconnect x))"
  by (intro only_pbind nd_first_row nd_setdefault_items) (simp add: nd_db_call nd_ret)

lemma c_get_default_settings:
  "emits (get_default_settings t) (contains ({Sql (SelectSentinel t) None} \<union> {}))"
  unfolding get_default_settings_def
  by (rule contains_pbind [OF c_db_call c_any [OF nd_default_rest]])

lemma c_get_settings:
  "emits (get_settings t) (contains ({Sql (SelectAll t) None} \<union> {}))"
  unfolding get_settings_def
  by (rule contains_pbind [OF c_get_all_table_data c_any [OF nd_hydrate_rows]])

subsection \<open>The extension callbacks of a successful run\<close>







subsection \<open>The trace of a successful run\<close>














subsection \<open>The caches after a successful run\<close>








lemma c_startup_impl:
  "emits startup_impl
     (contains ({} \<union> ({ClearCache Guild} \<union> ({ClearCache User} \<union> ({GetConnection None} \<union>
        (({Sql (SelectSentinel Guild) None} \<union> {}) \<union> (({Sql (SelectAll Guild) None} \<union> {}) \<union>
        (({Sql (SelectSentinel User) None} \<union> {}) \<union> (({Sql (SelectAll User) None} \<union> {}) \<union>
        ({} \<union> ({} \<union> ({WaitUntilReady} \<union> {Disconnect None}))))))))))))"
  unfolding startup_impl_def
  by (intro contains_pbind c_any [OF emits_log] c_clear c_get_connection c_get_default_settings
      c_get_settings emits_state_dependent [of run_cache_setup, OF c_any [OF emits_run_cache_setup]]
      c_wait_until_ready c_disconnect)

lemma c_startup: "emits startup (contains startup_steps)"
  unfolding startup_def
proof (rule emits_try_except [OF c_startup_impl])
  fix e
  show "emits (pbind (log ERROR (str_exn e)) (\<lambda>_. exit 1))
     (\<lambda>r es. r = Exit 1 \<and> (\<exists>msg. es = [Log ERROR msg]))"
    by (rule emits_pbind [OF emits_log emits_exit]) auto
next
  fix e es1 and r :: "unit outcome" and es2
  assume "r = Exit 1 \<and> (\<exists>msg. es2 = [Log ERROR msg])"
  then show "contains startup_steps r (es1 @ es2)"
    by (simp add: contains_def)
next
  fix r :: "unit outcome" and es
  assume "contains ({} \<union> ({ClearCache Guild} \<union> ({ClearCache User} \<union> ({GetConnection None} \<union>
        (({Sql (SelectSentinel Guild) None} \<union> {}) \<union> (({Sql (SelectAll Guild) None} \<union> {}) \<union>
        (({Sql (SelectSentinel User) None} \<union> {}) \<union> (({Sql (SelectAll User) None} \<union> {}) \<union>
        ({} \<union> ({} \<union> ({WaitUntilReady} \<union> {Disconnect None}))))))))))) r es"
  then show "contains startup_steps r es"
    by (simp add: contains_def startup_steps_def)
qed

lemma startup_trace:
  assumes "emits startup Q" and "startup s = (r, s')" and "trace s' = trace s @ es"
  shows "Q r es"
proof -
  from assms(1) obtain es' where t: "trace (snd (startup s)) = trace s @ es'"
    and q: "Q (fst (startup s)) es'"
    by (rule emitsD)
  from t assms(2,3) have "es' = es" by simp
  with q assms(2) show ?thesis by simp
qed


lemma example_trace_extends:
  "\<exists>es. trace (snd (startup example_state)) = trace example_state @ es"
  using sorted_startup by (rule emitsD) blast




text \<open>
  Claim C8, as the code has it. The connection is released exactly when \<open>startup\<close>
  returns: the release is then the last step of the run, after the acquisition. On every
  other way out (the process exits after an error, or the run waits for ever)
  \<open>disconnect\<close> has not succeeded; \<open>_startup\<close> has no \<open>finally\<close>.
\<close>

theorem startup_releases_only_on_success:
  assumes "startup s = (r, s')" and "trace s' = trace s @ es"
  shows "if r = Return ()
     then \<exists>pre. es = pre @ [Disconnect None] \<and> GetConnection None \<in> set pre
            \<and> (\<forall>x\<in>set pre. \<not> is_Disconnect x)
     else Disconnect None \<notin> set es"
proof (cases "r = Return ()")
  case True
  have "released r es"
    by (rule startup_trace [OF released_startup assms])
  with True obtain pre where es: "es = pre @ [Disconnect None]" and pre: "\<forall>x\<in>set pre. \<not> is_Disconnect x"
    by (auto simp: released_def)
  have "contains startup_steps r es"
    by (rule startup_trace [OF c_startup assms])
  with True have "GetConnection None \<in> set es"
    by (simp add: contains_def startup_steps_def)
  with es have "GetConnection None \<in> set pre" by simp
  with es pre True show ?thesis by simp
next
  case False
  have "released r es"
    by (rule startup_trace [OF released_startup assms])
  with False show ?thesis by (simp add: released_def)
qed

text \<open>
  The claim as stated fails: when the select of the sentinel row raises, the process
  exits with the connection acquired and not released.
\<close>

theorem connection_not_released_counterexample:
  "fst (startup failing_state) = Exit 1
   \<and> GetConnection None \<in> set (trace (snd (startup failing_state)))
   \<and> Disconnect None \<notin> set (trace (snd (startup failing_state)))
   \<and> open_connections (db (snd (startup failing_state))) = 1"
  by (simp add: failing_startup_exits failing_startup_trace failing_startup_connections)

theorem startup_release_witness:
  "fst (startup example_state) = Return ()
   \<and> last (trace (snd (startup example_state))) = Disconnect None
   \<and> fst (startup failing_state) = Exit 1
   \<and> Disconnect None \<notin> set (trace (snd (startup failing_state)))"
proof -
  from example_trace_extends obtain es
    where t: "trace (snd (startup example_state)) = trace example_state @ es"
    by blast
  from startup_releases_only_on_success [OF example_startup_eq t]
  obtain pre where "es = pre @ [Disconnect None]"
    by auto
  with t have 1: "last (trace (snd (startup example_state))) = Disconnect None"
    by simp
  let ?es = "[Log DEBUG ''Clearing caches'', ClearCache Guild, ClearCache User, GetConnection None,
        Sql (SelectSentinel Guild) (Some (PostgresError ''connection lost'')),
        Log ERROR ''connection lost'']"
  have run: "startup failing_state = (Exit 1, snd (startup failing_state))"
    using failing_startup_exits by (cases "startup failing_state") simp
  have tr: "trace (snd (startup failing_state)) = trace failing_state @ ?es"
    by (simp add: failing_startup_trace failing_trace)
  from startup_releases_only_on_success [OF run tr]
  have "Disconnect None \<notin> set ?es" by simp
  then have 2: "Disconnect None \<notin> set (trace (snd (startup failing_state)))"
    by (simp add: failing_startup_trace)
  from 1 2 example_startup_returns failing_startup_exits show ?thesis by simp
qed

end
